theory Spec2Isabelle
  imports Complex_Main
begin

section \<open>JavaScript numbers\<close>

text \<open>
  The mortgage routes (\<^verbatim>\<open>src/routes/mortgageRoutes.js\<close>) compute with JavaScript
  numbers, that is IEEE-754 binary64 values: the finite ones, which are real numbers,
  \<^verbatim>\<open>Infinity\<close>, \<^verbatim>\<open>-Infinity\<close> and \<^verbatim>\<open>NaN\<close>. The two zeros of binary64 are one value here
  (\<open>Fin 0\<close>): they are equal under \<^verbatim>\<open>===\<close> and differ only as divisors, and every divisor
  of the handlers that can be zero is a difference or a quotient of non-negative
  numbers, hence \<^verbatim>\<open>+0\<close>. Numbers are what the handlers compute; \<^verbatim>\<open>res.json\<close> prints
  \<^verbatim>\<open>Infinity\<close> and \<^verbatim>\<open>NaN\<close> as \<^verbatim>\<open>null\<close>.
\<close>

datatype number = Fin real | PInf | NInf | NaN

text \<open>
  Each of \<^verbatim>\<open>+ - * /\<close> returns the exact result rounded to the nearest binary64 value,
  and \<^verbatim>\<open>Math.pow\<close> returns an approximation of the exact power that ECMAScript leaves
  to the implementation. The arithmetic is therefore a parameter \<open>A\<close> of the embedding:
  the rounding \<open>rnd A\<close> applied to the exact result of an operation on finite numbers,
  and the power function \<open>pwr A\<close>.
\<close>

record arith =
  rnd :: "real \<Rightarrow> number"
  pwr :: "real \<Rightarrow> nat \<Rightarrow> number"

text \<open>
  Rounding to binary64. \<open>round53\<close> rounds to 53 significant bits, ties to even, with
  no bound on the exponent. \<open>round_binary64\<close> is the rounding of IEEE-754: below
  \<open>2 ^ - 1022\<close> the binary64 values are the multiples of \<open>2 ^ - 1074\<close> (gradual
  underflow), and a result that rounds to \<open>2 ^ 1024\<close> or more overflows to an infinity.
\<close>

fun bits :: "nat \<Rightarrow> nat" where
  "bits n = (if n = 0 then 0 else Suc (bits (n div 2)))"

definition pow2 :: "int \<Rightarrow> real" where
  "pow2 e = (if 0 \<le> e then 2 ^ nat e else 1 / 2 ^ nat (- e))"

definition exponent :: "real \<Rightarrow> int" where
  \<comment> \<open>for \<open>x \<noteq> 0\<close>, the \<open>e\<close> with \<open>2 ^ e \<le> \<bar>x\<bar> < 2 ^ (e + 1)\<close>\<close>
  "exponent x =
     (if 1 \<le> \<bar>x\<bar> then int (bits (nat \<lfloor>\<bar>x\<bar>\<rfloor>)) - 1
      else - int (bits (nat (\<lceil>1 / \<bar>x\<bar>\<rceil> - 1))))"

definition round_half_even :: "real \<Rightarrow> int" where
  "round_half_even y =
     (let f = \<lfloor>y\<rfloor>; d = y - of_int f
      in if d < 1 / 2 then f
         else if 1 / 2 < d then f + 1
         else if even f then f else f + 1)"

definition round53 :: "real \<Rightarrow> real" where
  "round53 x =
     (if x = 0 then 0
      else let u = pow2 (exponent x - 52)
           in of_int (round_half_even (x / u)) * u)"

definition round_binary64 :: "real \<Rightarrow> number" where
  "round_binary64 x =
     (if \<bar>x\<bar> < 1 / 2 ^ 1022 then Fin (of_int (round_half_even (x * 2 ^ 1074)) / 2 ^ 1074)
      else if 2 ^ 1024 \<le> \<bar>round53 x\<bar> then (if 0 < x then PInf else NInf)
      else Fin (round53 x))"

text \<open>
  Two arithmetics. \<open>exact\<close> rounds nothing: the arithmetic of the formulas as they are
  written. \<open>binary64\<close> is the arithmetic of the handlers, with the correctly rounded
  power for \<^verbatim>\<open>Math.pow\<close>; an implementation's \<^verbatim>\<open>Math.pow\<close> may differ from it in the
  last place, except where the exact power is itself a binary64 value or overflows.
  What is proved of the handlers' arithmetic below is proved for every \<open>A\<close> with
  \<open>rnd A = round_binary64\<close>, whatever \<open>pwr A\<close> is, or for every accurate \<open>A\<close>.
\<close>

definition exact :: arith where
  "exact = \<lparr>rnd = Fin, pwr = (\<lambda>a n. Fin (a ^ n))\<rparr>"

definition binary64 :: arith where
  "binary64 = \<lparr>rnd = round_binary64, pwr = (\<lambda>a n. round_binary64 (a ^ n))\<rparr>"

text \<open>
  The operations on numbers. On finite operands they round the exact result; the
  other cases are those of IEEE-754: \<^verbatim>\<open>NaN\<close> propagates, \<^verbatim>\<open>Infinity - Infinity\<close>,
  \<^verbatim>\<open>0 * Infinity\<close>, \<^verbatim>\<open>0 / 0\<close> and \<^verbatim>\<open>Infinity / Infinity\<close> are \<^verbatim>\<open>NaN\<close>, a non-zero number
  divided by zero is an infinity, and a finite number divided by an infinity is zero.
\<close>

fun negative :: "number \<Rightarrow> bool" where
  "negative (Fin a) = (a < 0)"
| "negative NInf = True"
| "negative PInf = False"
| "negative NaN = False"

definition infinity :: "bool \<Rightarrow> number" where
  "infinity neg = (if neg then NInf else PInf)"

fun js_add :: "arith \<Rightarrow> number \<Rightarrow> number \<Rightarrow> number" where
  "js_add A (Fin a) (Fin b) = rnd A (a + b)"
| "js_add A NaN y = NaN"
| "js_add A x NaN = NaN"
| "js_add A PInf NInf = NaN"
| "js_add A NInf PInf = NaN"
| "js_add A PInf y = PInf"
| "js_add A NInf y = NInf"
| "js_add A x PInf = PInf"
| "js_add A x NInf = NInf"

fun js_sub :: "arith \<Rightarrow> number \<Rightarrow> number \<Rightarrow> number" where
  "js_sub A (Fin a) (Fin b) = rnd A (a - b)"
| "js_sub A NaN y = NaN"
| "js_sub A x NaN = NaN"
| "js_sub A PInf PInf = NaN"
| "js_sub A NInf NInf = NaN"
| "js_sub A PInf y = PInf"
| "js_sub A NInf y = NInf"
| "js_sub A x PInf = NInf"
| "js_sub A x NInf = PInf"

fun js_mul :: "arith \<Rightarrow> number \<Rightarrow> number \<Rightarrow> number" where
  "js_mul A (Fin a) (Fin b) = rnd A (a * b)"
| "js_mul A NaN y = NaN"
| "js_mul A x NaN = NaN"
| "js_mul A x y =
     (if x = Fin 0 \<or> y = Fin 0 then NaN else infinity (negative x \<noteq> negative y))"

fun js_div :: "arith \<Rightarrow> number \<Rightarrow> number \<Rightarrow> number" where
  "js_div A (Fin a) (Fin b) =
     (if b = 0 then (if a = 0 then NaN else infinity (a < 0)) else rnd A (a / b))"
| "js_div A NaN y = NaN"
| "js_div A x NaN = NaN"
| "js_div A (Fin a) y = Fin 0"
| "js_div A x (Fin b) = infinity (negative x \<noteq> (b < 0))"
| "js_div A x y = NaN"

definition js_pow :: "arith \<Rightarrow> number \<Rightarrow> nat \<Rightarrow> number" where
  \<comment> \<open>\<^verbatim>\<open>Math.pow(x, n)\<close> for a natural exponent\<close>
  "js_pow A x n =
     (if n = 0 then Fin 1
      else case x of
             Fin a \<Rightarrow> pwr A a n
           | PInf \<Rightarrow> PInf
           | NInf \<Rightarrow> (if even n then PInf else NInf)
           | NaN \<Rightarrow> NaN)"

fun js_max :: "number \<Rightarrow> number \<Rightarrow> number" where
  \<comment> \<open>\<^verbatim>\<open>Math.max\<close>\<close>
  "js_max (Fin a) (Fin b) = Fin (max a b)"
| "js_max NaN y = NaN"
| "js_max x NaN = NaN"
| "js_max PInf y = PInf"
| "js_max x PInf = PInf"
| "js_max NInf y = y"
| "js_max x NInf = x"

fun js_min :: "number \<Rightarrow> number \<Rightarrow> number" where
  \<comment> \<open>\<^verbatim>\<open>Math.min\<close>\<close>
  "js_min (Fin a) (Fin b) = Fin (min a b)"
| "js_min NaN y = NaN"
| "js_min x NaN = NaN"
| "js_min NInf y = NInf"
| "js_min x NInf = NInf"
| "js_min PInf y = y"
| "js_min x PInf = x"

text \<open>
  An arithmetic is accurate to \<open>d\<close> when, on every exact result in the normal range of
  binary64, its rounding and its power return a finite number within the relative
  error \<open>d\<close>. binary64 rounding is accurate to \<open>2 ^ - 53\<close>, and a \<^verbatim>\<open>Math.pow\<close> that errs
  by a few units in the last place is accurate to \<open>10 ^ - 12\<close> with room to spare.
  \<open>enclosed l x u\<close> says that \<open>x\<close> is a finite number between \<open>l\<close> and \<open>u\<close>.
\<close>

definition normal :: "real \<Rightarrow> bool" where
  "normal x \<longleftrightarrow> 1 / 2 ^ 1022 \<le> \<bar>x\<bar> \<and> \<bar>x\<bar> \<le> 2 ^ 1023"

definition accurate :: "arith \<Rightarrow> real \<Rightarrow> bool" where
  "accurate A d \<longleftrightarrow>
     (\<forall>x. normal x \<longrightarrow> (\<exists>y. rnd A x = Fin y \<and> \<bar>y - x\<bar> \<le> d * \<bar>x\<bar>)) \<and>
     (\<forall>a n. normal (a ^ n) \<longrightarrow> (\<exists>y. pwr A a n = Fin y \<and> \<bar>y - a ^ n\<bar> \<le> d * \<bar>a ^ n\<bar>))"

definition enclosed :: "real \<Rightarrow> number \<Rightarrow> real \<Rightarrow> bool" where
  "enclosed l x u \<longleftrightarrow> (\<exists>v. x = Fin v \<and> l \<le> v \<and> v \<le> u)"

section \<open>Requests and responses\<close>

text \<open>
  Each route runs the request validator first (\<^verbatim>\<open>validate(schema)\<close>, which answers
  \<^verbatim>\<open>400\<close> with the validation errors) and then the handler, which answers
  \<^verbatim>\<open>{success: true, results}\<close>. The handlers' \<^verbatim>\<open>catch\<close> branch (\<^verbatim>\<open>500\<close>) is not
  modelled: arithmetic on numbers does not throw. The fields of a request body are
  finite numbers, and \<^verbatim>\<open>Joi.number()\<close> refuses a number outside the safe integer range
  from \<open>- (2 ^ 53 - 1)\<close> to \<open>2 ^ 53 - 1\<close>. An integer field (the loan term in years) is a natural number;
  twelve times a term below \<open>2 ^ 53 / 12\<close> is computed exactly, and so is the month
  counter of the loop.
\<close>

datatype 'a response = Ok 'a | BadRequest

definition safe :: "real \<Rightarrow> bool" where
  \<comment> \<open>\<^verbatim>\<open>Number.MIN_SAFE_INTEGER <= x <= Number.MAX_SAFE_INTEGER\<close>\<close>
  "safe x \<longleftrightarrow> \<bar>x\<bar> \<le> 9007199254740991"

section \<open>POST /mortgage/calculate\<close>

record row =
  month :: nat
  payment :: number
  principalPayment :: number
  interestPayment :: number
  remainingBalance :: number

record payment_result =
  monthlyPayment :: number
  totalPayment :: number
  totalInterest :: number
  amortizationSchedule :: "row list"

definition retained :: "nat \<Rightarrow> nat \<Rightarrow> bool" where
  \<comment> \<open>\<^verbatim>\<open>month <= 12 || month === loanTermMonths || month % 12 === 0\<close>\<close>
  "retained loanTermMonths m \<longleftrightarrow> m \<le> 12 \<or> m = loanTermMonths \<or> m mod 12 = 0"

text \<open>
  The \<^verbatim>\<open>for\<close> loop of the handler, lines 158-173: \<open>m\<close> is the loop variable \<^verbatim>\<open>month\<close>,
  \<open>mp\<close> the constant \<^verbatim>\<open>monthlyPayment\<close>, \<open>bal\<close> the mutable \<^verbatim>\<open>remainingBalance\<close>, \<open>sched\<close>
  the array the rows are pushed to (\<open>i_part\<close> and \<open>p_part\<close> are the loop's
  \<^verbatim>\<open>interestPayment\<close> and \<^verbatim>\<open>principalPayment\<close>).
\<close>

function amortization_loop ::
  "arith \<Rightarrow> number \<Rightarrow> number \<Rightarrow> nat \<Rightarrow> nat \<Rightarrow> number \<Rightarrow> row list \<Rightarrow> row list" where
  "amortization_loop A mp monthlyInterestRate loanTermMonths m bal sched =
     (if m \<le> loanTermMonths then
        let i_part = js_mul A bal monthlyInterestRate;
            p_part = js_sub A mp i_part;
            bal' = js_sub A bal p_part
        in amortization_loop A mp monthlyInterestRate loanTermMonths (m + 1) bal'
             (if retained loanTermMonths m
              then sched @ [\<lparr>month = m, payment = mp,
                              principalPayment = p_part,
                              interestPayment = i_part,
                              remainingBalance = js_max (Fin 0) bal'\<rparr>]
              else sched)
      else sched)"
  by pat_completeness auto
termination
  by (relation "measure (\<lambda>(A, p, r, n, m, b, s). Suc n - m)") auto

definition annuity :: "arith \<Rightarrow> number \<Rightarrow> number \<Rightarrow> nat \<Rightarrow> number" where
  \<comment> \<open>the expression \<^verbatim>\<open>P * (r * Math.pow(1 + r, n)) / (Math.pow(1 + r, n) - 1)\<close>,
      written out at lines 146-148, 251-253 and 304-306\<close>
  "annuity A P r n =
     js_div A (js_mul A P (js_mul A r (js_pow A (js_add A (Fin 1) r) n)))
       (js_sub A (js_pow A (js_add A (Fin 1) r) n) (Fin 1))"

definition calculate :: "arith \<Rightarrow> real \<Rightarrow> real \<Rightarrow> nat \<Rightarrow> payment_result" where
  \<comment> \<open>the handler's body, lines 129-182; \<open>loan_principal\<close> is the field \<^verbatim>\<open>principal\<close>\<close>
  "calculate A loan_principal interestRate loanTerm =
     (let monthlyInterestRate = js_div A (js_div A (Fin interestRate) (Fin 100)) (Fin 12);
          loanTermMonths = loanTerm * 12;
          (mp, tp, ti) =
            (if monthlyInterestRate = Fin 0
             then (js_div A (Fin loan_principal) (Fin (of_nat loanTermMonths)),
                   Fin loan_principal, Fin 0)
             else let mp = annuity A (Fin loan_principal) monthlyInterestRate loanTermMonths;
                      tp = js_mul A mp (Fin (of_nat loanTermMonths))
                  in (mp, tp, js_sub A tp (Fin loan_principal)))
      in \<lparr>monthlyPayment = mp, totalPayment = tp, totalInterest = ti,
          amortizationSchedule =
            amortization_loop A mp monthlyInterestRate loanTermMonths 1
              (Fin loan_principal) []\<rparr>)"

text \<open>
  The request validator (\<^verbatim>\<open>mortgageSchemas.calculate\<close>, lines 9-29) lets the handler run
  only on a positive principal, a non-negative rate and a positive integer term, all
  of them safe.
\<close>

definition valid_calculate :: "real \<Rightarrow> real \<Rightarrow> nat \<Rightarrow> bool" where
  "valid_calculate loan_principal interestRate loanTerm \<longleftrightarrow>
     0 < loan_principal \<and> safe loan_principal \<and> 0 \<le> interestRate \<and> safe interestRate \<and>
     0 < loanTerm \<and> safe (of_nat loanTerm)"

definition post_calculate :: "arith \<Rightarrow> real \<Rightarrow> real \<Rightarrow> nat \<Rightarrow> payment_result response" where
  "post_calculate A loan_principal interestRate loanTerm =
     (if valid_calculate loan_principal interestRate loanTerm
      then Ok (calculate A loan_principal interestRate loanTerm)
      else BadRequest)"

text \<open>
  The balance the loop carries from month to month, written as the recurrence
  \<open>b 0 = principal\<close>, \<open>b m = b (m - 1) - (monthlyPayment - b (m - 1) * monthlyRate)\<close>,
  and the row the loop body computes in month \<open>m\<close> from \<open>b (m - 1)\<close>.
\<close>

fun balance :: "arith \<Rightarrow> number \<Rightarrow> number \<Rightarrow> number \<Rightarrow> nat \<Rightarrow> number" where
  "balance A mp r P 0 = P"
| "balance A mp r P (Suc m) =
     js_sub A (balance A mp r P m) (js_sub A mp (js_mul A (balance A mp r P m) r))"

definition month_row :: "arith \<Rightarrow> number \<Rightarrow> number \<Rightarrow> number \<Rightarrow> nat \<Rightarrow> row" where
  "month_row A mp r P m =
     \<lparr>month = m, payment = mp,
      principalPayment = js_sub A mp (js_mul A (balance A mp r P (m - 1)) r),
      interestPayment = js_mul A (balance A mp r P (m - 1)) r,
      remainingBalance = js_max (Fin 0) (balance A mp r P m)\<rparr>"

section \<open>POST /mortgage/affordability\<close>

record payment_breakdown =
  principalAndInterest :: number
  taxes :: number
  insurance :: number

record affordability_result =
  maxHomePrice :: number
  monthlyPayment :: number
  paymentBreakdown :: payment_breakdown
  debtToIncomeRatio :: number

definition availableForHousing :: "arith \<Rightarrow> real \<Rightarrow> real \<Rightarrow> number" where
  \<comment> \<open>lines 207-219; \<^verbatim>\<open>0.28\<close> and \<^verbatim>\<open>0.36\<close> are the binary64 values nearest the literals\<close>
  "availableForHousing A annualIncome monthlyDebts =
     (let monthlyIncome = js_div A (Fin annualIncome) (Fin 12);
          maxHousingPayment = js_mul A monthlyIncome (rnd A (28 / 100));
          maxTotalDebtPayment = js_mul A monthlyIncome (rnd A (36 / 100))
      in js_min maxHousingPayment (js_sub A maxTotalDebtPayment (Fin monthlyDebts)))"

definition maxLoanAmount :: "arith \<Rightarrow> number \<Rightarrow> real \<Rightarrow> nat \<Rightarrow> real \<Rightarrow> real \<Rightarrow> number" where
  \<comment> \<open>lines 222-239\<close>
  "maxLoanAmount A available interestRate loanTerm propertyTaxRate insuranceRate =
     (let monthlyInterestRate = js_div A (js_div A (Fin interestRate) (Fin 100)) (Fin 12);
          loanTermMonths = loanTerm * 12
      in if monthlyInterestRate = Fin 0 then js_mul A available (Fin (of_nat loanTermMonths))
         else js_div A available
                (js_add A
                  (js_add A
                    (js_div A
                      (js_mul A monthlyInterestRate
                         (js_pow A (js_add A (Fin 1) monthlyInterestRate) loanTermMonths))
                      (js_sub A
                         (js_pow A (js_add A (Fin 1) monthlyInterestRate) loanTermMonths)
                         (Fin 1)))
                    (js_div A (js_div A (Fin propertyTaxRate) (Fin 100)) (Fin 12)))
                  (js_div A (js_div A (Fin insuranceRate) (Fin 100)) (Fin 12))))"

definition affordability ::
  "arith \<Rightarrow> real \<Rightarrow> real \<Rightarrow> real \<Rightarrow> real \<Rightarrow> nat \<Rightarrow> real \<Rightarrow> real \<Rightarrow> affordability_result" where
  \<comment> \<open>the handler's body, lines 196-275\<close>
  "affordability A annualIncome monthlyDebts downPayment interestRate loanTerm
       propertyTaxRate insuranceRate =
     (let monthlyIncome = js_div A (Fin annualIncome) (Fin 12);
          available = availableForHousing A annualIncome monthlyDebts;
          monthlyInterestRate = js_div A (js_div A (Fin interestRate) (Fin 100)) (Fin 12);
          loanTermMonths = loanTerm * 12;
          maxLoan = maxLoanAmount A available interestRate loanTerm propertyTaxRate insuranceRate;
          homePrice = js_add A maxLoan (Fin downPayment);
          loanAmount = js_sub A homePrice (Fin downPayment);
          p_and_i =
            (if monthlyInterestRate = Fin 0
             then js_div A loanAmount (Fin (of_nat loanTermMonths))
             else annuity A loanAmount monthlyInterestRate loanTermMonths);
          monthlyTaxes =
            js_div A (js_div A (js_mul A homePrice (Fin propertyTaxRate)) (Fin 100)) (Fin 12);
          monthlyInsurance =
            js_div A (js_div A (js_mul A homePrice (Fin insuranceRate)) (Fin 100)) (Fin 12);
          totalMonthlyPayment = js_add A (js_add A p_and_i monthlyTaxes) monthlyInsurance;
          dti = js_mul A (js_div A (js_add A totalMonthlyPayment (Fin monthlyDebts))
                           monthlyIncome) (Fin 100)
      in \<lparr>maxHomePrice = homePrice, monthlyPayment = totalMonthlyPayment,
          paymentBreakdown =
            \<lparr>principalAndInterest = p_and_i, taxes = monthlyTaxes,
             insurance = monthlyInsurance\<rparr>,
          debtToIncomeRatio = dti\<rparr>)"

text \<open>The request validator, \<^verbatim>\<open>mortgageSchemas.affordability\<close>, lines 31-74.\<close>

definition valid_affordability ::
  "real \<Rightarrow> real \<Rightarrow> real \<Rightarrow> real \<Rightarrow> nat \<Rightarrow> real \<Rightarrow> real \<Rightarrow> bool" where
  "valid_affordability annualIncome monthlyDebts downPayment interestRate loanTerm
       propertyTaxRate insuranceRate \<longleftrightarrow>
     0 < annualIncome \<and> safe annualIncome \<and> 0 \<le> monthlyDebts \<and> safe monthlyDebts \<and>
     0 \<le> downPayment \<and> safe downPayment \<and> 0 \<le> interestRate \<and> safe interestRate \<and>
     0 < loanTerm \<and> safe (of_nat loanTerm) \<and> 0 \<le> propertyTaxRate \<and> safe propertyTaxRate \<and>
     0 \<le> insuranceRate \<and> safe insuranceRate"

definition post_affordability ::
  "arith \<Rightarrow> real \<Rightarrow> real \<Rightarrow> real \<Rightarrow> real \<Rightarrow> nat \<Rightarrow> real \<Rightarrow> real
     \<Rightarrow> affordability_result response" where
  "post_affordability A annualIncome monthlyDebts downPayment interestRate loanTerm
       propertyTaxRate insuranceRate =
     (if valid_affordability annualIncome monthlyDebts downPayment interestRate loanTerm
           propertyTaxRate insuranceRate
      then Ok (affordability A annualIncome monthlyDebts downPayment interestRate loanTerm
                 propertyTaxRate insuranceRate)
      else BadRequest)"

section \<open>POST /mortgage/compare\<close>

record loan_option =
  amount :: real
  interestRate :: real
  "term" :: nat
  type :: string
  points :: real
  fees :: real

record loan_result = loan_option +
  monthlyPayment :: number
  totalInterest :: number
  totalCost :: number

definition pointsCost :: "arith \<Rightarrow> loan_option \<Rightarrow> number" where
  \<comment> \<open>\<^verbatim>\<open>(points / 100) * amount\<close>, line 293\<close>
  "pointsCost A opt = js_mul A (js_div A (Fin (points opt)) (Fin 100)) (Fin (amount opt))"

definition compare_option :: "arith \<Rightarrow> loan_option \<Rightarrow> loan_result" where
  \<comment> \<open>the function mapped over \<^verbatim>\<open>loanOptions\<close>, lines 290-322\<close>
  "compare_option A opt =
     (let monthlyInterestRate =
            js_div A (js_div A (Fin (interestRate opt)) (Fin 100)) (Fin 12);
          loanTermMonths = term opt * 12;
          mp = (if monthlyInterestRate = Fin 0
                then js_div A (Fin (amount opt)) (Fin (of_nat loanTermMonths))
                else annuity A (Fin (amount opt)) monthlyInterestRate loanTermMonths);
          totalPayments = js_mul A mp (Fin (of_nat loanTermMonths));
          ti = js_sub A totalPayments (Fin (amount opt));
          tc = js_add A (js_add A (js_add A (Fin (amount opt)) ti) (pointsCost A opt))
                 (Fin (fees opt))
      in loan_option.extend opt
           \<lparr>monthlyPayment = mp, totalInterest = ti, totalCost = tc\<rparr>)"

definition compare :: "arith \<Rightarrow> loan_option list \<Rightarrow> loan_result list" where
  "compare A loanOptions = map (compare_option A) loanOptions"

text \<open>The request validator, \<^verbatim>\<open>mortgageSchemas.comparison\<close>, lines 76-123.\<close>

definition valid_option :: "loan_option \<Rightarrow> bool" where
  "valid_option opt \<longleftrightarrow>
     0 < amount opt \<and> safe (amount opt) \<and> 0 \<le> interestRate opt \<and> safe (interestRate opt) \<and>
     0 < term opt \<and> safe (of_nat (term opt)) \<and> type opt \<noteq> [] \<and>
     0 \<le> points opt \<and> safe (points opt) \<and> 0 \<le> fees opt \<and> safe (fees opt)"

definition valid_comparison :: "loan_option list \<Rightarrow> bool" where
  "valid_comparison loanOptions \<longleftrightarrow>
     1 \<le> length loanOptions \<and> length loanOptions \<le> 3 \<and> list_all valid_option loanOptions"

definition post_compare :: "arith \<Rightarrow> loan_option list \<Rightarrow> loan_result list response" where
  "post_compare A loanOptions =
     (if valid_comparison loanOptions then Ok (compare A loanOptions) else BadRequest)"

section \<open>Evaluation rules\<close>

text \<open>
  The recursive equations of \<open>bits\<close> and of the loop are unfolded by hand, never by the
  simplifier on its own; on numerals \<open>bits\<close> is computed bit by bit.
\<close>

declare amortization_loop.simps [simp del]
declare bits.simps [simp del]

lemma bits_0 [simp]: "bits 0 = 0"
  by (simp add: bits.simps)

lemma bits_Suc_0 [simp]: "bits (Suc 0) = Suc 0"
  by (simp add: bits.simps)

lemma bits_numeral_One [simp]: "bits (numeral Num.One) = 1"
  by (simp add: bits.simps)

lemma bits_Bit0 [simp]: "bits (numeral (Num.Bit0 k)) = Suc (bits (numeral k))"
  by (subst bits.simps) simp

lemma bits_Bit1 [simp]: "bits (numeral (Num.Bit1 k)) = Suc (bits (numeral k))"
  by (subst bits.simps) simp

lemmas b64_defs = round53_def exponent_def round_half_even_def pow2_def Let_def

lemma rnd_exact [simp]: "rnd exact x = Fin x"
  by (simp add: exact_def)

lemma pwr_exact [simp]: "pwr exact a n = Fin (a ^ n)"
  by (simp add: exact_def)

lemma rnd_binary64 [simp]: "rnd binary64 x = round_binary64 x"
  by (simp add: binary64_def)

lemma pwr_binary64 [simp]: "pwr binary64 a n = round_binary64 (a ^ n)"
  by (simp add: binary64_def)

lemma round53_0 [simp]: "round53 0 = 0"
  by (simp add: round53_def)

lemma round_binary64_0 [simp]: "round_binary64 0 = Fin 0"
  by (simp add: round_binary64_def round_half_even_def)

lemma js_pow_Fin: "0 < n \<Longrightarrow> js_pow A (Fin a) n = pwr A a n"
  by (simp add: js_pow_def)

section \<open>The error of one rounding\<close>

text \<open>
  \<open>bits n\<close> is the length of \<open>n\<close> in binary, so \<open>exponent x\<close> is at most the binary
  logarithm of \<open>\<bar>x\<bar>\<close>, and rounding to 53 significant bits moves \<open>x\<close> by at most
  \<open>\<bar>x\<bar> / 2 ^ 53\<close>. In the normal range \<open>round_binary64\<close> is \<open>round53\<close>; below it the
  result is within \<open>2 ^ - 1075\<close> of \<open>x\<close>.
\<close>

lemma bits_bounds: "0 < n \<Longrightarrow> 2 ^ (bits n - 1) \<le> n \<and> n < 2 ^ bits n"
proof (induction n rule: bits.induct)
  case (1 n)
  show ?case
  proof (cases "n div 2 = 0")
    case True
    with "1.prems" have "n = 1" by (simp add: div_eq_0_iff) 
    then show ?thesis by simp
  next
    case False
    with "1.prems" "1.IH" have ih: "2 ^ (bits (n div 2) - 1) \<le> n div 2" "n div 2 < 2 ^ bits (n div 2)"
      by simp_all
    have b: "bits n = Suc (bits (n div 2))"
      using "1.prems" by (subst bits.simps) simp
    have pos: "0 < bits (n div 2)"
      using False by (subst bits.simps) simp
    then have "(2::nat) ^ bits (n div 2) = 2 * 2 ^ (bits (n div 2) - 1)"
      by (cases "bits (n div 2)") simp_all
    with ih(1) have "(2::nat) ^ bits (n div 2) \<le> 2 * (n div 2)" by simp
    also have "\<dots> \<le> n" by simp
    finally have lo: "2 ^ (bits n - 1) \<le> n" by (simp add: b)
    have "n < 2 * (n div 2 + 1)" by presburger
    also have "\<dots> \<le> 2 * 2 ^ bits (n div 2)" using ih(2) by simp
    finally have "n < 2 ^ bits n" by (simp add: b)
    with lo show ?thesis by simp
  qed
qed

lemma pow2_powi: "pow2 e = 2 powi e"
  by (simp add: pow2_def power_int_def power_one_over inverse_eq_divide)

lemma pow2_pos: "0 < pow2 e"
  by (simp add: pow2_def)

lemma pow2_shift: "pow2 (e - 52) = pow2 e / 2 ^ 52"
proof -
  have "(2::real) powi (e - 52) = 2 powi e / 2 powi 52"
    by (rule power_int_diff) simp
  then show ?thesis
    by (simp only: pow2_powi power_int_numeral)
qed

lemma pow2_exponent_le:
  assumes "x \<noteq> 0"
  shows "pow2 (exponent x) \<le> \<bar>x\<bar>"
proof (cases "1 \<le> \<bar>x\<bar>")
  case True
  let ?n = "nat \<lfloor>\<bar>x\<bar>\<rfloor>"
  from True have n: "0 < ?n" by simp
  from bits_bounds [OF n] have "2 ^ (bits ?n - 1) \<le> ?n" by simp
  then have "real (2 ^ (bits ?n - 1)) \<le> real ?n"
    by (rule of_nat_mono)
  also have "real ?n \<le> \<bar>x\<bar>"
    using True by simp
  finally have "2 ^ (bits ?n - 1) \<le> \<bar>x\<bar>" by simp
  moreover have "0 < bits ?n"
    using n by (subst bits.simps) simp
  then have "exponent x = int (bits ?n - 1)"
    using True by (simp add: exponent_def)
  ultimately show ?thesis
    by (simp add: pow2_def)
next
  case False
  let ?m = "nat (\<lceil>1 / \<bar>x\<bar>\<rceil> - 1)"
  from False assms have x: "0 < \<bar>x\<bar>" "\<bar>x\<bar> < 1" by simp_all
  then have "1 < 1 / \<bar>x\<bar>" by simp
  then have c: "2 \<le> \<lceil>1 / \<bar>x\<bar>\<rceil>" by linarith
  then have m: "0 < ?m" by simp
  from bits_bounds [OF m] have "?m < 2 ^ bits ?m" by (rule conjunct2)
  then have "Suc ?m \<le> 2 ^ bits ?m" by (rule Suc_leI)
  then have "real (Suc ?m) \<le> real (2 ^ bits ?m)"
    by (rule of_nat_mono)
  moreover have "int (Suc ?m) = \<lceil>1 / \<bar>x\<bar>\<rceil>"
    using c assms by simp
  then have "real (Suc ?m) = of_int \<lceil>1 / \<bar>x\<bar>\<rceil>"
    by (metis of_int_of_nat_eq)
  ultimately have "of_int \<lceil>1 / \<bar>x\<bar>\<rceil> \<le> (2::real) ^ bits ?m" by simp
  then have "1 / \<bar>x\<bar> \<le> 2 ^ bits ?m"
    using le_of_int_ceiling [of "1 / \<bar>x\<bar>"] by linarith
  with x have "1 / 2 ^ bits ?m \<le> \<bar>x\<bar>"
    by (simp add: field_simps)
  moreover have "exponent x = - int (bits ?m)"
    using False by (simp add: exponent_def)
  moreover have "0 < bits ?m"
    using m by (subst bits.simps) simp
  ultimately show ?thesis
    by (simp add: pow2_def)
qed

lemma round_half_even_error: "\<bar>of_int (round_half_even y) - y\<bar> \<le> 1 / 2"
  unfolding round_half_even_def Let_def by (auto; linarith)

lemma round_half_even_bounds: "\<lfloor>y\<rfloor> \<le> round_half_even y \<and> round_half_even y \<le> \<lceil>y\<rceil>"
  unfolding round_half_even_def Let_def by (auto; linarith)

lemma round53_error: "\<bar>round53 x - x\<bar> \<le> \<bar>x\<bar> / 2 ^ 53"
proof (cases "x = 0")
  case True
  then show ?thesis by simp
next
  case False
  let ?u = "pow2 (exponent x - 52)"
  have u: "0 < ?u" by (rule pow2_pos)
  have "round53 x - x = (of_int (round_half_even (x / ?u)) - x / ?u) * ?u"
    using False u by (simp add: round53_def Let_def field_simps)
  then have "\<bar>round53 x - x\<bar> = \<bar>of_int (round_half_even (x / ?u)) - x / ?u\<bar> * ?u"
    using u by (simp add: abs_mult)
  also have "\<dots> \<le> 1 / 2 * ?u"
    using u round_half_even_error [of "x / ?u"] by (intro mult_right_mono) simp_all
  also have "\<dots> = pow2 (exponent x) / 2 ^ 53"
    by (simp add: pow2_shift)
  also have "\<dots> \<le> \<bar>x\<bar> / 2 ^ 53"
    using pow2_exponent_le [OF False] by (intro divide_right_mono) simp_all
  finally show ?thesis .
qed

lemma round53_bounds:
  "\<bar>x\<bar> - \<bar>x\<bar> / 2 ^ 53 \<le> \<bar>round53 x\<bar> \<and> \<bar>round53 x\<bar> \<le> \<bar>x\<bar> + \<bar>x\<bar> / 2 ^ 53"
proof -
  have "\<bar>round53 x\<bar> \<le> \<bar>x\<bar> + \<bar>round53 x - x\<bar>" "\<bar>x\<bar> \<le> \<bar>round53 x\<bar> + \<bar>round53 x - x\<bar>"
    by linarith+
  with round53_error [of x] show ?thesis
    by linarith
qed

lemma round53_sign: "(0 < x \<longrightarrow> 0 < round53 x) \<and> (x < 0 \<longrightarrow> round53 x < 0)"
proof (intro conjI impI)
  assume x: "0 < x"
  then have "\<bar>x\<bar> / 2 ^ 53 < x"
    by (simp add: field_simps)
  with round53_error [of x] have "\<bar>round53 x - x\<bar> < x"
    by linarith
  then show "0 < round53 x"
    by linarith
next
  assume x: "x < 0"
  then have "\<bar>x\<bar> / 2 ^ 53 < - x"
    by (simp add: field_simps)
  with round53_error [of x] have "\<bar>round53 x - x\<bar> < - x"
    by linarith
  then show "round53 x < 0"
    by linarith
qed

lemma round_binary64_normal:
  assumes "normal x"
  shows "round_binary64 x = Fin (round53 x)"
proof -
  from assms have x: "1 / 2 ^ 1022 \<le> \<bar>x\<bar>" "\<bar>x\<bar> \<le> 2 ^ 1023"
    by (simp_all add: normal_def)
  have "\<bar>round53 x\<bar> \<le> \<bar>x\<bar> + \<bar>x\<bar> / 2 ^ 53"
    using round53_bounds [of x] by simp
  also have "\<dots> \<le> 2 ^ 1023 + 2 ^ 1023 / 2 ^ 53"
    using x(2) by (intro add_mono divide_right_mono) simp_all
  also have "\<dots> < 2 ^ 1024"
    by simp
  finally have "\<not> 2 ^ 1024 \<le> \<bar>round53 x\<bar>"
    by simp
  moreover from x(1) have "\<not> \<bar>x\<bar> < 1 / 2 ^ 1022"
    by simp
  ultimately show ?thesis
    unfolding round_binary64_def by (simp only: if_False)
qed

lemma round_binary64_mid:
  "1 / 2 ^ 128 \<le> \<bar>x\<bar> \<Longrightarrow> \<bar>x\<bar> \<le> 2 ^ 128 \<Longrightarrow> round_binary64 x = Fin (round53 x)"
proof (rule round_binary64_normal)
  assume a: "1 / 2 ^ 128 \<le> \<bar>x\<bar>" "\<bar>x\<bar> \<le> 2 ^ 128"
  have "(1 / 2 ^ 1022 :: real) \<le> 1 / 2 ^ 128" "(2 ^ 128 :: real) \<le> 2 ^ 1023"
    by simp_all
  with a show "normal x"
    unfolding normal_def by linarith
qed

lemma round_binary64_subnormal:
  assumes "\<bar>x\<bar> < 1 / 2 ^ 1022"
  obtains y where "round_binary64 x = Fin y" "\<bar>y - x\<bar> \<le> 1 / 2 ^ 1075" "\<bar>y\<bar> \<le> 1 / 2 ^ 1022"
    "0 \<le> x \<longrightarrow> 0 \<le> y" "x \<le> 0 \<longrightarrow> y \<le> 0"
proof
  let ?z = "x * 2 ^ 1074"
  let ?k = "round_half_even ?z"
  let ?y = "of_int ?k / 2 ^ 1074 :: real"
  show "round_binary64 x = Fin ?y"
    using assms unfolding round_binary64_def by (simp only: if_True)
  have "?y - x = (of_int ?k - ?z) / 2 ^ 1074"
    by (simp add: field_simps)
  then have "\<bar>?y - x\<bar> = \<bar>of_int ?k - ?z\<bar> / 2 ^ 1074"
    by (simp only: abs_divide) simp
  also have "\<dots> \<le> (1 / 2) / 2 ^ 1074"
    by (intro divide_right_mono round_half_even_error) simp
  finally show "\<bar>?y - x\<bar> \<le> 1 / 2 ^ 1075"
    by simp
  have z: "\<bar>?z\<bar> \<le> 2 ^ 52"
  proof -
    have "\<bar>?z\<bar> = \<bar>x\<bar> * 2 ^ 1074"
      by (simp add: abs_mult)
    also have "\<dots> \<le> 1 / 2 ^ 1022 * 2 ^ 1074"
      using assms by (intro mult_right_mono) simp_all
    also have "\<dots> = 2 ^ 52"
      by simp
    finally show ?thesis .
  qed
  have "- (2 ^ 52) \<le> \<lfloor>?z\<rfloor>" "\<lceil>?z\<rceil> \<le> 2 ^ 52"
    using z by (simp_all add: le_floor_iff ceiling_le_iff abs_le_iff)
  with round_half_even_bounds [of ?z] have k: "- (2 ^ 52) \<le> ?k" "?k \<le> 2 ^ 52"
    by linarith+
  have "\<bar>of_int ?k :: real\<bar> = of_int \<bar>?k\<bar>"
    by simp
  also have "\<dots> \<le> of_int (2 ^ 52)"
    using k by (intro of_int_le_iff [THEN iffD2]) linarith
  finally have "\<bar>of_int ?k :: real\<bar> \<le> 2 ^ 52"
    by simp
  then have "\<bar>of_int ?k :: real\<bar> / 2 ^ 1074 \<le> 2 ^ 52 / 2 ^ 1074"
    by (rule divide_right_mono) simp
  then have "\<bar>?y\<bar> \<le> 2 ^ 52 / 2 ^ 1074"
    by (simp only: abs_divide power_abs abs_numeral)
  then show "\<bar>?y\<bar> \<le> 1 / 2 ^ 1022"
    by simp
  show "0 \<le> x \<longrightarrow> 0 \<le> ?y"
  proof
    assume "0 \<le> x"
    then have "0 \<le> \<lfloor>?z\<rfloor>" by simp
    with round_half_even_bounds [of ?z] have "0 \<le> ?k" by linarith
    then show "0 \<le> ?y" by simp
  qed
  show "x \<le> 0 \<longrightarrow> ?y \<le> 0"
  proof
    assume "x \<le> 0"
    then have "?z \<le> 0" by (simp add: mult_nonpos_nonneg)
    then have "\<lceil>?z\<rceil> \<le> 0" by (simp add: ceiling_le_iff)
    with round_half_even_bounds [of ?z] have "?k \<le> 0" by linarith
    then show "?y \<le> 0" by (simp add: divide_nonpos_pos)
  qed
qed

lemma round_binary64_cases:
  obtains (subnormal) "\<bar>x\<bar> < 1 / 2 ^ 1022"
  | (finite) "1 / 2 ^ 1022 \<le> \<bar>x\<bar>" "round_binary64 x = Fin (round53 x)"
  | (overflow) "1 / 2 ^ 1022 \<le> \<bar>x\<bar>" "round_binary64 x = (if 0 < x then PInf else NInf)"
proof (cases "\<bar>x\<bar> < 1 / 2 ^ 1022")
  case True
  then show ?thesis by (rule subnormal)
next
  case False
  then have x: "1 / 2 ^ 1022 \<le> \<bar>x\<bar>" by simp
  show ?thesis
  proof (cases "2 ^ 1024 \<le> \<bar>round53 x\<bar>")
    case True
    with False have "round_binary64 x = (if 0 < x then PInf else NInf)"
      unfolding round_binary64_def by (simp only: if_False if_True)
    with x show ?thesis by (rule overflow)
  next
    case b: False
    with False have "round_binary64 x = Fin (round53 x)"
      unfolding round_binary64_def by (simp only: if_False)
    with x show ?thesis by (rule finite)
  qed
qed

lemma round_binary64_error:
  assumes "round_binary64 x = Fin y"
  shows "\<bar>y - x\<bar> \<le> max (\<bar>x\<bar> / 2 ^ 53) (1 / 2 ^ 1075)"
proof (cases x rule: round_binary64_cases)
  case subnormal
  then obtain y' where "round_binary64 x = Fin y'" "\<bar>y' - x\<bar> \<le> 1 / 2 ^ 1075"
    by (elim round_binary64_subnormal)
  with assms have "\<bar>y - x\<bar> \<le> 1 / 2 ^ 1075"
    by (simp only: number.inject)
  then show ?thesis
    by (rule max.coboundedI2)
next
  case finite
  with assms have "y = round53 x"
    by (simp only: number.inject)
  then have "\<bar>y - x\<bar> \<le> \<bar>x\<bar> / 2 ^ 53"
    by (simp only: round53_error)
  then show ?thesis
    by (rule max.coboundedI1)
next
  case overflow
  from overflow(2) assms show ?thesis
    by (simp split: if_splits)
qed



lemma round_binary64_sign:
  assumes "round_binary64 x = Fin y"
  shows "(0 \<le> x \<longrightarrow> 0 \<le> y) \<and> (x \<le> 0 \<longrightarrow> y \<le> 0)"
proof (cases x rule: round_binary64_cases)
  case subnormal
  then obtain y' where "round_binary64 x = Fin y'" "0 \<le> x \<longrightarrow> 0 \<le> y'" "x \<le> 0 \<longrightarrow> y' \<le> 0"
    by (elim round_binary64_subnormal)
  with assms show ?thesis
    by (simp only: number.inject)
next
  case finite
  with assms have y: "y = round53 x"
    by (simp only: number.inject)
  show ?thesis
    using round53_sign [of x] unfolding y by (cases "x = 0") (auto simp: less_le)
next
  case overflow
  from overflow(2) assms show ?thesis
    by (simp split: if_splits)
qed

lemma accurate_binary64: "1 / 2 ^ 53 \<le> d \<Longrightarrow> accurate binary64 d"
proof -
  assume d: "1 / 2 ^ 53 \<le> d"
  have "\<exists>y. round_binary64 x = Fin y \<and> \<bar>y - x\<bar> \<le> d * \<bar>x\<bar>" if "normal x" for x
  proof -
    have "\<bar>round53 x - x\<bar> \<le> 1 / 2 ^ 53 * \<bar>x\<bar>"
      using round53_error [of x] by simp
    also have "\<dots> \<le> d * \<bar>x\<bar>"
      using d by (intro mult_right_mono) simp_all
    finally show ?thesis
      using round_binary64_normal [OF that] by simp
  qed
  then show ?thesis
    by (simp add: accurate_def)
qed

lemma accurate_exact: "0 \<le> d \<Longrightarrow> accurate exact d"
  by (simp add: accurate_def)

section \<open>The amortization loop, month by month\<close>

text \<open>
  Entered at month \<open>m\<close> with the balance \<open>balance \<dots> (m - 1)\<close>, the loop appends
  \<open>month_row \<dots> k\<close> for exactly the retained months \<open>k\<close> of \<open>m, \<dots>, loanTermMonths\<close>, in order.
\<close>

lemma loop_rows:
  "1 \<le> m \<Longrightarrow> bal = balance A mp r P (m - 1) \<Longrightarrow>
   amortization_loop A mp r n m bal sched =
     sched @ map (month_row A mp r P) (filter (retained n) [m..<Suc n])"
proof (induction A mp r n m bal sched rule: amortization_loop.induct)
  case (1 A mp r n m bal sched)
  show ?case
  proof (cases "m \<le> n")
    case True
    let ?b' = "js_sub A bal (js_sub A mp (js_mul A bal r))"
    let ?row = "\<lparr>month = m, payment = mp, principalPayment = js_sub A mp (js_mul A bal r),
                 interestPayment = js_mul A bal r, remainingBalance = js_max (Fin 0) ?b'\<rparr>"
    let ?sched' = "if retained n m then sched @ [?row] else sched"
    from "1.prems" have b: "?b' = balance A mp r P m"
      by (cases m) simp_all
    have row: "?row = month_row A mp r P m"
      using "1.prems" b by (simp add: month_row_def)
    have u: "[m..<Suc n] = m # [Suc m..<Suc n]"
      using True by (simp add: upt_conv_Cons)
    have step: "amortization_loop A mp r n m bal sched =
                amortization_loop A mp r n (m + 1) ?b' ?sched'"
      using True by (subst amortization_loop.simps) (simp add: Let_def)
    have ih: "amortization_loop A mp r n (m + 1) ?b' ?sched' =
              ?sched' @ map (month_row A mp r P) (filter (retained n) [m + 1..<Suc n])"
      by (rule "1.IH" [OF True refl refl refl]) (simp_all add: b)
    have "?sched' @ map (month_row A mp r P) (filter (retained n) [m + 1..<Suc n]) =
          sched @ map (month_row A mp r P) (filter (retained n) [m..<Suc n])"
      unfolding row u by simp
    with step ih show ?thesis by (simp only:)
  next
    case False
    then show ?thesis by (subst amortization_loop.simps) simp
  qed
qed

lemma schedule_rows:
  "amortizationSchedule (calculate A P rate n) =
     map (month_row A (payment_result.monthlyPayment (calculate A P rate n))
                      (js_div A (js_div A (Fin rate) (Fin 100)) (Fin 12)) (Fin P))
         (filter (retained (n * 12)) [1..<Suc (n * 12)])"
  by (simp add: calculate_def Let_def loop_rows split: prod.split)

lemma month_month_row [simp]: "month (month_row A mp r P m) = m"
  by (simp add: month_row_def)

lemma schedule_months:
  "map month (amortizationSchedule (calculate A P rate n)) =
     filter (retained (n * 12)) [1..<Suc (n * 12)]"
  by (simp add: schedule_rows o_def)

lemma schedule_row_cases:
  assumes "row \<in> set (amortizationSchedule (calculate A P rate n))"
  obtains m where "1 \<le> m" "m \<le> n * 12" "retained (n * 12) m"
    "row = month_row A (payment_result.monthlyPayment (calculate A P rate n))
                       (js_div A (js_div A (Fin rate) (Fin 100)) (Fin 12)) (Fin P) m"
  using assms unfolding schedule_rows by (auto simp del: upt_Suc)

lemma last_month_row:
  "0 < n \<Longrightarrow> last (amortizationSchedule (calculate A P rate n)) =
     month_row A (payment_result.monthlyPayment (calculate A P rate n))
                 (js_div A (js_div A (Fin rate) (Fin 100)) (Fin 12)) (Fin P) (n * 12)"
  unfolding schedule_rows by (simp add: last_map retained_def)

lemma schedule_nonempty: "0 < n \<Longrightarrow> amortizationSchedule (calculate A P rate n) \<noteq> []"
  unfolding schedule_rows by (simp add: retained_def)

lemma schedule_first_rows:
  assumes n: "0 < n"
  shows "amortizationSchedule (calculate A P rate n) ! 0 =
       month_row A (payment_result.monthlyPayment (calculate A P rate n))
         (js_div A (js_div A (Fin rate) (Fin 100)) (Fin 12)) (Fin P) 1 \<and>
     amortizationSchedule (calculate A P rate n) ! 1 =
       month_row A (payment_result.monthlyPayment (calculate A P rate n))
         (js_div A (js_div A (Fin rate) (Fin 100)) (Fin 12)) (Fin P) 2"
proof -
  have a: "[Suc 0..<Suc (n * 12)] = Suc 0 # [Suc (Suc 0)..<Suc (n * 12)]"
    by (rule upt_conv_Cons) (use n in simp)
  have b: "[Suc (Suc 0)..<Suc (n * 12)] = Suc (Suc 0) # [Suc (Suc (Suc 0))..<Suc (n * 12)]"
    by (rule upt_conv_Cons) (use n in simp)
  show ?thesis
    unfolding schedule_rows One_nat_def a b
    by (simp add: retained_def numeral_2_eq_2 del: upt_Suc)
qed

lemma balance_next:
  "balance A mp r P m = b \<Longrightarrow> k = Suc m \<Longrightarrow>
   balance A mp r P k = js_sub A b (js_sub A mp (js_mul A b r))"
  by simp

section \<open>Which months the schedule keeps\<close>

text \<open>
  Claim C1. Whatever the arithmetic and the inputs, the schedule returned by
  \<open>calculate\<close> has a row for month \<open>m\<close> if and only if \<open>m\<close> is one of the months
  \<open>1, \<dots>, termMonths\<close> of the loan and \<open>m \<le> 12\<close>, or \<open>m = termMonths\<close>, or \<open>m\<close> is a
  multiple of 12 (\<open>termMonths = termYears * 12\<close>). No month appears twice (the final
  month, itself a multiple of 12, gives one row), and the rows are in strictly
  increasing month order.
\<close>

theorem schedule_retention:
  "(m \<in> set (map month (amortizationSchedule (calculate A P rate n))) \<longleftrightarrow>
      1 \<le> m \<and> m \<le> n * 12 \<and> (m \<le> 12 \<or> m = n * 12 \<or> m mod 12 = 0)) \<and>
   distinct (map month (amortizationSchedule (calculate A P rate n))) \<and>
   sorted_wrt (<) (map month (amortizationSchedule (calculate A P rate n)))"
  unfolding schedule_months
  by (auto simp del: upt_Suc simp add: retained_def intro: sorted_wrt_filter)

theorem schedule_retention_witness:
  "24 \<in> set (map month (amortizationSchedule (calculate binary64 200000 6 2))) \<and>
   distinct (map month (amortizationSchedule (calculate binary64 200000 6 2))) \<and>
   sorted_wrt (<) (map month (amortizationSchedule (calculate binary64 200000 6 2)))"
  using schedule_retention [of 24 binary64 200000 6 2] by simp

section \<open>The zero-rate branch\<close>

lemma zero_rate_branch:
  "rnd A 0 = Fin 0 \<Longrightarrow> js_div A (js_div A (Fin 0) (Fin 100)) (Fin 12) = Fin 0"
  by simp

text \<open>
  Claim C2. For every principal \<open>P > 0\<close> and every positive whole number of years \<open>n\<close>,
  with \<open>interestRate = 0\<close>, \<open>calculate\<close> takes the zero-rate branch: the monthly payment
  is the single division of \<open>P\<close> by the \<open>12 * n\<close> months (a non-zero divisor), that is
  \<open>P / (12 * n)\<close> itself in exact arithmetic and that quotient rounded once in an
  arithmetic that rounds; \<open>totalPayment\<close> is \<open>P\<close> and \<open>totalInterest\<close> is \<open>0\<close>, unrounded.
  The arithmetic only has to leave \<open>0\<close> unchanged, as \<open>exact\<close> and \<open>binary64\<close> do. On a
  valid request the route answers with the handler's result.
\<close>

theorem zero_rate_payment:
  assumes "rnd A 0 = Fin 0" and "0 < P" and "0 < n"
  shows "payment_result.monthlyPayment (calculate A P 0 n) = rnd A (P / real (12 * n)) \<and>
         totalPayment (calculate A P 0 n) = Fin P \<and>
         payment_result.totalInterest (calculate A P 0 n) = Fin 0 \<and>
         real (12 * n) \<noteq> 0 \<and>
         payment_result.monthlyPayment (calculate exact P 0 n) = Fin (P / (12 * real n)) \<and>
         (valid_calculate P 0 n \<longrightarrow> post_calculate A P 0 n = Ok (calculate A P 0 n))"
  using assms
  by (simp add: post_calculate_def calculate_def Let_def mult.commute)

theorem zero_rate_payment_witness:
  "rnd binary64 0 = Fin 0 \<and> valid_calculate 100000 0 1 \<and>
   payment_result.monthlyPayment (calculate binary64 100000 0 1) = round_binary64 (100000 / 12) \<and>
   payment_result.monthlyPayment (calculate exact 100000 0 1) = Fin (25000 / 3) \<and>
   totalPayment (calculate binary64 100000 0 1) = Fin 100000 \<and>
   payment_result.totalInterest (calculate binary64 100000 0 1) = Fin 0 \<and>
   post_calculate binary64 100000 0 1 = Ok (calculate binary64 100000 0 1)"
  using zero_rate_payment [of binary64 100000 1]
  by (simp add: valid_calculate_def safe_def)

section \<open>binary64: loans at rate 0\<close>

text \<open>
  \<^verbatim>\<open>250000 / 24\<close> is \<^verbatim>\<open>10416.666666666666\<close>, the binary64 value
  \<open>5726623061333333 / 2 ^ 39\<close>, a little below a twenty-fourth of the principal, and
  each of the subtractions \<^verbatim>\<open>remainingBalance -= principalPayment\<close> is rounded: after
  the twenty-four payments the balance is \<open>25 / 2 ^ 38\<close> (\<^verbatim>\<open>9.094947017729282e-11\<close>),
  not \<open>0\<close>. \<^verbatim>\<open>10000 / 12\<close> is \<^verbatim>\<open>833.3333333333334\<close>, a little above a twelfth of the
  principal, and after the twelve payments the balance is \<open>- 1 / 2 ^ 42\<close>
  (\<^verbatim>\<open>-2.2737367544323206e-13\<close>).
\<close>

lemma b64_payment_250000: "round_binary64 (250000 / 24) = Fin (5726623061333333 / 549755813888)"
  by (simp add: round_binary64_mid b64_defs)

lemma b64_payment_10000: "round_binary64 (10000 / 12) = Fin (7330077518506667 / 8796093022208)"
  by (simp add: round_binary64_mid b64_defs)


lemma b64_balance_10000:
  "balance binary64 (Fin (7330077518506667 / 8796093022208)) (Fin 0) (Fin 10000) 12 = Fin (- (1 / 4398046511104))"
proof -
  let ?b = "balance binary64 (Fin (7330077518506667 / 8796093022208)) (Fin 0) (Fin 10000)"
  have b0: "?b 0 = Fin 10000"
    by simp
  have b1: "?b 1 = Fin (5039428293973333 / 549755813888)"
    using balance_next [OF b0, of 1] by (simp add: round_binary64_mid b64_defs)
  have b2: "?b 2 = Fin (2290649224533333 / 274877906944)"
    using balance_next [OF b1, of 2] by (simp add: round_binary64_mid b64_defs)
  have b3: "?b 3 = Fin (8246337208319999 / 1099511627776)"
    using balance_next [OF b2, of 3] by (simp add: round_binary64_mid b64_defs)
  have b4: "?b 4 = Fin (3665038759253333 / 549755813888)"
    using balance_next [OF b3, of 4] by (simp add: round_binary64_mid b64_defs)
  have b5: "?b 5 = Fin (6413817828693333 / 1099511627776)"
    using balance_next [OF b4, of 5] by (simp add: round_binary64_mid b64_defs)
  have b6: "?b 6 = Fin 5000"
    using balance_next [OF b5, of 6] by (simp add: round_binary64_mid b64_defs)
  have b7: "?b 7 = Fin (4581298449066667 / 1099511627776)"
    using balance_next [OF b6, of 7] by (simp add: round_binary64_mid b64_defs)
  have b8: "?b 8 = Fin (7330077518506667 / 2199023255552)"
    using balance_next [OF b7, of 8] by (simp add: round_binary64_mid b64_defs)
  have b9: "?b 9 = Fin 2500"
    using balance_next [OF b8, of 9] by (simp add: round_binary64_mid b64_defs)
  have b10: "?b 10 = Fin (3665038759253333 / 2199023255552)"
    using balance_next [OF b9, of 10] by (simp add: round_binary64_mid b64_defs)
  have b11: "?b 11 = Fin (7330077518506665 / 8796093022208)"
    using balance_next [OF b10, of 11] by (simp add: round_binary64_mid b64_defs)
  have b12: "?b 12 = Fin (- (1 / 4398046511104))"
    using balance_next [OF b11, of 12] by (simp add: round_binary64_mid b64_defs)
  show ?thesis
    by (rule b12)
qed

lemma b64_calculate_250000:
  "payment_result.monthlyPayment (calculate binary64 250000 0 2) = Fin (5726623061333333 / 549755813888)"
  "js_div binary64 (js_div binary64 (Fin 0) (Fin 100)) (Fin 12) = Fin 0"
  using b64_payment_250000 by (simp_all add: calculate_def Let_def)

lemma b64_calculate_10000:
  "payment_result.monthlyPayment (calculate binary64 10000 0 1) = Fin (7330077518506667 / 8796093022208)"
  using b64_payment_10000 by (simp add: calculate_def Let_def)

section \<open>binary64: a loan of 100000 at 1200 percent over a hundred years\<close>

text \<open>
  The monthly rate \<^verbatim>\<open>1200 / 100 / 12\<close> is \<open>1\<close>, and \<^verbatim>\<open>Math.pow(2, 1200)\<close> overflows to
  \<^verbatim>\<open>Infinity\<close>. The payment \<^verbatim>\<open>100000 * (1 * Infinity) / (Infinity - 1)\<close> is
  \<^verbatim>\<open>Infinity / Infinity\<close>, that is \<^verbatim>\<open>NaN\<close>, and so are the principal part and the balance
  of every month.
\<close>

lemma js_sub_NaN [simp]: "js_sub A x NaN = NaN" "js_sub A NaN y = NaN"
  by (cases x) simp_all

lemma b64_rate_1200: "js_div binary64 (js_div binary64 (Fin 1200) (Fin 100)) (Fin 12) = Fin 1"
  by (simp add: round_binary64_mid b64_defs)

lemma b64_pow_overflow: "round_binary64 (2 ^ 1200) = PInf"
proof -
  have "(2::real) ^ 1200 - 2 ^ 1200 / 2 ^ 53 \<le> \<bar>round53 (2 ^ 1200)\<bar>"
    using round53_bounds [of "2 ^ 1200"] by simp
  moreover have "(2::real) ^ 1024 \<le> 2 ^ 1200 - 2 ^ 1200 / 2 ^ 53"
    by simp
  ultimately have "2 ^ 1024 \<le> \<bar>round53 (2 ^ 1200)\<bar>"
    by (rule order_trans [rotated])
  moreover have "\<not> \<bar>(2::real) ^ 1200\<bar> < 1 / 2 ^ 1022"
    by simp
  ultimately show ?thesis
    unfolding round_binary64_def by (simp only: if_False if_True) simp
qed

lemma b64_payment_NaN: "annuity binary64 (Fin 100000) (Fin 1) 1200 = NaN"
proof -
  have "js_add binary64 (Fin 1) (Fin 1) = Fin 2"
    by (simp add: round_binary64_mid b64_defs)
  moreover have "js_pow binary64 (Fin 2) 1200 = PInf"
    by (simp only: js_pow_Fin pwr_binary64 b64_pow_overflow)
  ultimately show ?thesis
    by (simp add: annuity_def infinity_def)
qed

lemma b64_calculate_NaN:
  "payment_result.monthlyPayment (calculate binary64 100000 1200 100) = NaN"
  by (simp only: calculate_def Let_def b64_rate_1200) (simp add: b64_payment_NaN)

lemma balance_NaN: "0 < m \<Longrightarrow> balance A NaN r P m = NaN"
  by (cases m) simp_all

section \<open>The reported balance\<close>

lemma js_max_zero:
  "js_max (Fin 0) x = NaN \<or> js_max (Fin 0) x = PInf \<or> (\<exists>v. js_max (Fin 0) x = Fin v \<and> 0 \<le> v)"
  by (cases x) simp_all


text \<open>
  Claim C5 says that every row reports \<open>max(0, b m)\<close> of the unclamped recurrence and
  that, in particular, every reported balance is \<open>\<ge> 0\<close>. The second part fails when the
  balance is \<^verbatim>\<open>NaN\<close>, because \<^verbatim>\<open>Math.max(0, NaN)\<close> is \<^verbatim>\<open>NaN\<close>: for the valid request
  \<^verbatim>\<open>{principal: 100000, interestRate: 1200, loanTerm: 100}\<close> the monthly payment and the
  reported balances of the first and of the last row are \<^verbatim>\<open>NaN\<close>.
\<close>

theorem reported_balance_counterexample:
  "valid_calculate 100000 1200 100 \<and>
   payment_result.monthlyPayment (calculate binary64 100000 1200 100) = NaN \<and>
   month (amortizationSchedule (calculate binary64 100000 1200 100) ! 0) = 1 \<and>
   remainingBalance (amortizationSchedule (calculate binary64 100000 1200 100) ! 0) = NaN \<and>
   month (last (amortizationSchedule (calculate binary64 100000 1200 100))) = 1200 \<and>
   remainingBalance (last (amortizationSchedule (calculate binary64 100000 1200 100))) = NaN"
proof -
  have n: "0 < (100::nat)" by simp
  have "remainingBalance (month_row binary64 NaN r P m) = NaN" if "0 < m" for r P m
    using that by (simp add: month_row_def balance_NaN)
  then show ?thesis
    using schedule_first_rows [OF n, of binary64 100000 1200]
      last_month_row [OF n, of binary64 100000 1200]
    by (simp add: b64_calculate_NaN valid_calculate_def safe_def)
qed

text \<open>
  Claim C5, amended. Every row of the schedule belongs to a month \<open>m\<close> of
  \<open>1, \<dots>, termMonths\<close> and reports \<^verbatim>\<open>Math.max(0, b m)\<close>, where \<open>b\<close> is the recurrence
  \<open>balance\<close>: \<open>b 0\<close> is the principal and
  \<open>b m = b (m - 1) - (monthlyPayment - b (m - 1) * monthlyRate)\<close>, computed with the
  handler's arithmetic and never clamped. The clamp touches the reported value only.
  The reported balance is never negative: it is \<^verbatim>\<open>NaN\<close> when \<open>b m\<close> is \<^verbatim>\<open>NaN\<close>, and
  otherwise it is \<open>\<ge> 0\<close> (\<^verbatim>\<open>Infinity\<close> included).
\<close>

theorem reported_balance:
  assumes "row \<in> set (amortizationSchedule (calculate A P rate n))"
  shows "remainingBalance row =
           js_max (Fin 0)
             (balance A (payment_result.monthlyPayment (calculate A P rate n))
                (js_div A (js_div A (Fin rate) (Fin 100)) (Fin 12)) (Fin P) (month row)) \<and>
         (remainingBalance row = NaN \<or> remainingBalance row = PInf \<or>
            (\<exists>v. remainingBalance row = Fin v \<and> 0 \<le> v)) \<and>
         (remainingBalance row = NaN \<longleftrightarrow>
            balance A (payment_result.monthlyPayment (calculate A P rate n))
              (js_div A (js_div A (Fin rate) (Fin 100)) (Fin 12)) (Fin P) (month row) = NaN) \<and>
         1 \<le> month row \<and> month row \<le> n * 12"
proof -
  from assms obtain m where m: "1 \<le> m" "m \<le> n * 12"
    and row: "row = month_row A (payment_result.monthlyPayment (calculate A P rate n))
                (js_div A (js_div A (Fin rate) (Fin 100)) (Fin 12)) (Fin P) m"
    by (rule schedule_row_cases)
  let ?b = "balance A (payment_result.monthlyPayment (calculate A P rate n))
              (js_div A (js_div A (Fin rate) (Fin 100)) (Fin 12)) (Fin P) m"
  have rb: "remainingBalance row = js_max (Fin 0) ?b" and mo: "month row = m"
    unfolding row by (simp_all add: month_row_def)
  have "js_max (Fin 0) ?b = NaN \<longleftrightarrow> ?b = NaN"
    by (cases ?b) simp_all
  with js_max_zero [of ?b] m show ?thesis
    unfolding rb mo by simp
qed

theorem reported_balance_witness:
  "last (amortizationSchedule (calculate binary64 10000 0 1))
     \<in> set (amortizationSchedule (calculate binary64 10000 0 1)) \<and>
   month (last (amortizationSchedule (calculate binary64 10000 0 1))) = 12 \<and>
   balance binary64 (payment_result.monthlyPayment (calculate binary64 10000 0 1))
     (js_div binary64 (js_div binary64 (Fin 0) (Fin 100)) (Fin 12)) (Fin 10000) 12 =
     Fin (- (1 / 4398046511104)) \<and>
   remainingBalance (last (amortizationSchedule (calculate binary64 10000 0 1))) = Fin 0"
proof -
  let ?S = "amortizationSchedule (calculate binary64 10000 0 1)"
  have m: "last ?S \<in> set ?S"
    by (rule last_in_set) (simp add: schedule_nonempty)
  have l: "month (last ?S) = 12"
    by (simp add: last_month_row)
  from reported_balance [OF m] m show ?thesis
    unfolding l b64_calculate_10000 b64_calculate_250000(2) b64_balance_10000 by simp
qed

section \<open>The final row\<close>




section \<open>binary64: a loan of 10^12 at 600 percent over one year\<close>

text \<open>
  The monthly rate \<^verbatim>\<open>600 / 100 / 12\<close> is \<open>1 / 2\<close> and \<open>1.5 ^ 12 = 531441 / 4096\<close> is itself
  a binary64 value, so that every \<^verbatim>\<open>Math.pow\<close> that errs by less than one unit in the
  last place returns it. The lemmas follow the handler's operations one by one: the
  payment \<^verbatim>\<open>503883605609.23114\<close>, the eleven balances before the last month, and the
  last month's interest and principal parts.
\<close>

lemma b64_calculate_trillion:
  "js_div binary64 (js_div binary64 (Fin 600) (Fin 100)) (Fin 12) = Fin (1 / 2)"
  "payment_result.monthlyPayment (calculate binary64 1000000000000 600 1) = Fin (8255628994301643 / 16384)"
proof -
  show r: "js_div binary64 (js_div binary64 (Fin 600) (Fin 100)) (Fin 12) = Fin (1 / 2)"
    by (simp add: round_binary64_mid b64_defs)
  have q: "js_add binary64 (Fin 1) (Fin (1 / 2)) = Fin (3 / 2)"
    by (simp add: round_binary64_mid b64_defs)
  have "(3 / 2 :: real) ^ 12 = 531441 / 4096"
    by (simp add: power_divide)
  moreover have "round_binary64 (531441 / 4096) = Fin (531441 / 4096)"
    by (simp add: round_binary64_mid b64_defs)
  ultimately have pw: "js_pow binary64 (Fin (3 / 2)) 12 = Fin (531441 / 4096)"
    by (simp only: js_pow_Fin pwr_binary64)
  have rp: "js_mul binary64 (Fin (1 / 2)) (Fin (531441 / 4096)) = Fin (531441 / 8192)"
    by (simp add: round_binary64_mid b64_defs)
  have num: "js_mul binary64 (Fin 1000000000000) (Fin (531441 / 8192)) = Fin (129746337890625 / 2)"
    by (simp add: round_binary64_mid b64_defs)
  have den: "js_sub binary64 (Fin (531441 / 4096)) (Fin 1) = Fin (527345 / 4096)"
    by (simp add: round_binary64_mid b64_defs)
  have quot: "js_div binary64 (Fin (129746337890625 / 2)) (Fin (527345 / 4096)) = Fin (8255628994301643 / 16384)"
    by (simp add: round_binary64_mid b64_defs)
  have "annuity binary64 (Fin 1000000000000) (Fin (1 / 2)) 12 = Fin (8255628994301643 / 16384)"
    unfolding annuity_def q pw rp num den quot ..
  then show "payment_result.monthlyPayment (calculate binary64 1000000000000 600 1) = Fin (8255628994301643 / 16384)"
    by (simp only: calculate_def Let_def r) simp
qed

lemma b64_balance_trillion:
  "balance binary64 (Fin (8255628994301643 / 16384)) (Fin (1 / 2)) (Fin 1000000000000) 11 = Fin (5503752662867793 / 16384)"
proof -
  let ?b = "balance binary64 (Fin (8255628994301643 / 16384)) (Fin (1 / 2)) (Fin 1000000000000)"
  have b0: "?b 0 = Fin 1000000000000"
    by simp
  have b1: "?b 1 = Fin (4080092751424589 / 4096)"
    using balance_next [OF b0, of 1] by (simp add: round_binary64_mid b64_defs)
  have b2: "?b 2 = Fin (4056231878561473 / 4096)"
    using balance_next [OF b1, of 2] by (simp add: round_binary64_mid b64_defs)
  have b3: "?b 3 = Fin (4020440569266799 / 4096)"
    using balance_next [OF b2, of 3] by (simp add: round_binary64_mid b64_defs)
  have b4: "?b 4 = Fin (991688401331197 / 1024)"
    using balance_next [OF b3, of 4] by (simp add: round_binary64_mid b64_defs)
  have b5: "?b 5 = Fin (3886223159411771 / 4096)"
    using balance_next [OF b4, of 5] by (simp add: round_binary64_mid b64_defs)
  have b6: "?b 6 = Fin (1882713745271123 / 2048)"
    using balance_next [OF b5, of 6] by (simp add: round_binary64_mid b64_defs)
  have b7: "?b 7 = Fin (1792116993618979 / 2048)"
    using balance_next [OF b6, of 7] by (simp add: round_binary64_mid b64_defs)
  have b8: "?b 8 = Fin (1656221866140763 / 2048)"
    using balance_next [OF b7, of 8] by (simp add: round_binary64_mid b64_defs)
  have b9: "?b 9 = Fin (1452379174923439 / 2048)"
    using balance_next [OF b8, of 9] by (simp add: round_binary64_mid b64_defs)
  have b10: "?b 10 = Fin (1146615138097453 / 2048)"
    using balance_next [OF b9, of 10] by (simp add: round_binary64_mid b64_defs)
  have b11: "?b 11 = Fin (5503752662867793 / 16384)"
    using balance_next [OF b10, of 11] by (simp add: round_binary64_mid b64_defs)
  show ?thesis
    by (rule b11)
qed

lemma b64_row_trillion:
  "interestPayment (month_row binary64 (Fin (8255628994301643 / 16384)) (Fin (1 / 2)) (Fin 1000000000000) 12) = Fin (5503752662867793 / 32768)"
  "principalPayment (month_row binary64 (Fin (8255628994301643 / 16384)) (Fin (1 / 2)) (Fin 1000000000000) 12) = Fin (2751876331433873 / 8192)"
  "payment (month_row binary64 (Fin (8255628994301643 / 16384)) (Fin (1 / 2)) (Fin 1000000000000) 12) = Fin (8255628994301643 / 16384)"
  by (simp_all add: month_row_def b64_balance_trillion round_binary64_mid b64_defs)

section \<open>binary64: a loan of 100000 at 75 percent over one year\<close>

text \<open>
  The monthly rate \<^verbatim>\<open>75 / 100 / 12\<close> is \<open>1 / 16\<close>, and \<open>(17 / 16) ^ 12\<close> is a binary64 value
  as well. The payment is \<^verbatim>\<open>12091.722091076415\<close>.
\<close>

lemma b64_calculate_100000:
  "js_div binary64 (js_div binary64 (Fin 75) (Fin 100)) (Fin 12) = Fin (1 / 16)"
  "payment_result.monthlyPayment (calculate binary64 100000 75 1) = Fin (830936814935903 / 68719476736)"
proof -
  show r: "js_div binary64 (js_div binary64 (Fin 75) (Fin 100)) (Fin 12) = Fin (1 / 16)"
    by (simp add: round_binary64_mid b64_defs)
  have q: "js_add binary64 (Fin 1) (Fin (1 / 16)) = Fin (17 / 16)"
    by (simp add: round_binary64_mid b64_defs)
  have "(17 / 16 :: real) ^ 12 = 582622237229761 / 281474976710656"
    by (simp add: power_divide)
  moreover have "round_binary64 (582622237229761 / 281474976710656) = Fin (582622237229761 / 281474976710656)"
    by (simp add: round_binary64_mid b64_defs)
  ultimately have pw: "js_pow binary64 (Fin (17 / 16)) 12 = Fin (582622237229761 / 281474976710656)"
    by (simp only: js_pow_Fin pwr_binary64)
  have rp: "js_mul binary64 (Fin (1 / 16)) (Fin (582622237229761 / 281474976710656)) = Fin (582622237229761 / 4503599627370496)"
    by (simp add: round_binary64_mid b64_defs)
  have num: "js_mul binary64 (Fin 100000) (Fin (582622237229761 / 4503599627370496)) = Fin (3556043928404303 / 274877906944)"
    by (simp add: round_binary64_mid b64_defs)
  have den: "js_sub binary64 (Fin (582622237229761 / 281474976710656)) (Fin 1) = Fin (301147260519105 / 281474976710656)"
    by (simp add: round_binary64_mid b64_defs)
  have quot: "js_div binary64 (Fin (3556043928404303 / 274877906944)) (Fin (301147260519105 / 281474976710656)) = Fin (830936814935903 / 68719476736)"
    by (simp add: round_binary64_mid b64_defs)
  have "annuity binary64 (Fin 100000) (Fin (1 / 16)) 12 = Fin (830936814935903 / 68719476736)"
    unfolding annuity_def q pw rp num den quot ..
  then show "payment_result.monthlyPayment (calculate binary64 100000 75 1) = Fin (830936814935903 / 68719476736)"
    by (simp only: calculate_def Let_def r) simp
qed

lemma b64_balance_100000:
  "balance binary64 (Fin (830936814935903 / 68719476736)) (Fin (1 / 16)) (Fin 100000) 11 = Fin (1564116357526405 / 137438953472)"
proof -
  let ?b = "balance binary64 (Fin (830936814935903 / 68719476736)) (Fin (1 / 16)) (Fin 100000)"
  have b0: "?b 0 = Fin 100000"
    by simp
  have b1: "?b 1 = Fin (6470507588264097 / 68719476736)"
    using balance_next [OF b0, of 1] by (simp add: round_binary64_mid b64_defs)
  have b2: "?b 2 = Fin (1510994374398675 / 17179869184)"
    using balance_next [OF b1, of 2] by (simp add: round_binary64_mid b64_defs)
  have b3: "?b 3 = Fin (2795394638129233 / 34359738368)"
    using balance_next [OF b2, of 3] by (simp add: round_binary64_mid b64_defs)
  have b4: "?b 4 = Fin (5109276791088717 / 68719476736)"
    using balance_next [OF b3, of 4] by (simp add: round_binary64_mid b64_defs)
  have b5: "?b 5 = Fin (4597669775595859 / 68719476736)"
    using balance_next [OF b4, of 5] by (simp add: round_binary64_mid b64_defs)
  have b6: "?b 6 = Fin (4054087321634697 / 68719476736)"
    using balance_next [OF b5, of 6] by (simp add: round_binary64_mid b64_defs)
  have b7: "?b 7 = Fin (6953061928601925 / 137438953472)"
    using balance_next [OF b6, of 7] by (simp add: round_binary64_mid b64_defs)
  have b8: "?b 8 = Fin (5725754669267739 / 137438953472)"
    using balance_next [OF b7, of 8] by (simp add: round_binary64_mid b64_defs)
  have b9: "?b 9 = Fin (4421740706225167 / 137438953472)"
    using balance_next [OF b8, of 9] by (simp add: round_binary64_mid b64_defs)
  have b10: "?b 10 = Fin (1518112935246217 / 68719476736)"
    using balance_next [OF b9, of 10] by (simp add: round_binary64_mid b64_defs)
  have b11: "?b 11 = Fin (1564116357526405 / 137438953472)"
    using balance_next [OF b10, of 11] by (simp add: round_binary64_mid b64_defs)
  show ?thesis
    by (rule b11)
qed

lemma b64_row_100000:
  "interestPayment (month_row binary64 (Fin (830936814935903 / 68719476736)) (Fin (1 / 16)) (Fin 100000) 12) = Fin (1564116357526405 / 2199023255552)"
  "principalPayment (month_row binary64 (Fin (830936814935903 / 68719476736)) (Fin (1 / 16)) (Fin 100000) 12) = Fin (6256465430105623 / 549755813888)"
  "payment (month_row binary64 (Fin (830936814935903 / 68719476736)) (Fin (1 / 16)) (Fin 100000) 12) = Fin (830936814935903 / 68719476736)"
  by (simp_all add: month_row_def b64_balance_100000 round_binary64_mid b64_defs)

section \<open>Principal part plus interest part\<close>

lemma round_binary64_finite:
  assumes "\<bar>x\<bar> \<le> 2 ^ 1023"
  obtains y where "round_binary64 x = Fin y"
proof (cases "\<bar>x\<bar> < 1 / 2 ^ 1022")
  case True
  then show ?thesis
    by (elim round_binary64_subnormal) (rule that)
next
  case False
  with assms have "normal x"
    by (simp add: normal_def)
  from round_binary64_normal [OF this] show ?thesis
    by (rule that)
qed

text \<open>
  Claim C3 says that in every retained row, for every valid input,
  \<open>principalPayment + interestPayment\<close> is within \<open>10 ^ - 6\<close> of \<open>monthlyPayment\<close>. The
  principal part is the rounded difference \<^verbatim>\<open>monthlyPayment - interestPayment\<close>, and
  the rounding error grows with the amounts: for the valid request \<^verbatim>\<open>{principal: 1e12,
  interestRate: 600, loanTerm: 1}\<close> the row of month 12 has
  \<open>principalPayment + interestPayment = monthlyPayment - 1 / 32768\<close>, about \<open>3.05e-5\<close> off,
  and the sum computed in binary64 is \<open>monthlyPayment - 1 / 16384\<close>.
\<close>

theorem row_sum_counterexample:
  "valid_calculate 1000000000000 600 1 \<and>
   last (amortizationSchedule (calculate binary64 1000000000000 600 1))
     \<in> set (amortizationSchedule (calculate binary64 1000000000000 600 1)) \<and>
   payment (last (amortizationSchedule (calculate binary64 1000000000000 600 1))) =
     Fin (8255628994301643 / 16384) \<and>
   interestPayment (last (amortizationSchedule (calculate binary64 1000000000000 600 1))) =
     Fin (5503752662867793 / 32768) \<and>
   principalPayment (last (amortizationSchedule (calculate binary64 1000000000000 600 1))) =
     Fin (2751876331433873 / 8192) \<and>
   1 / 10 ^ 6 < \<bar>2751876331433873 / 8192 + 5503752662867793 / 32768 - 8255628994301643 / 16384 :: real\<bar> \<and>
   js_add binary64
     (principalPayment (last (amortizationSchedule (calculate binary64 1000000000000 600 1))))
     (interestPayment (last (amortizationSchedule (calculate binary64 1000000000000 600 1)))) =
     Fin (4127814497150821 / 8192) \<and>
   1 / 10 ^ 6 < \<bar>4127814497150821 / 8192 - 8255628994301643 / 16384 :: real\<bar>"
proof -
  let ?S = "amortizationSchedule (calculate binary64 1000000000000 600 1)"
  have "last ?S =
      month_row binary64 (payment_result.monthlyPayment (calculate binary64 1000000000000 600 1))
        (js_div binary64 (js_div binary64 (Fin 600) (Fin 100)) (Fin 12)) (Fin 1000000000000)
        (1 * 12)"
    by (rule last_month_row) simp
  then have l: "last ?S = month_row binary64 (Fin (8255628994301643 / 16384)) (Fin (1 / 2)) (Fin 1000000000000) 12"
    unfolding b64_calculate_trillion by simp
  have m: "last ?S \<in> set ?S"
    by (rule last_in_set) (simp add: schedule_nonempty)
  have s: "js_add binary64 (Fin (2751876331433873 / 8192)) (Fin (5503752662867793 / 32768)) = Fin (4127814497150821 / 8192)"
    by (simp add: round_binary64_mid b64_defs)
  have v: "valid_calculate 1000000000000 600 1"
    by (simp add: valid_calculate_def safe_def)
  show ?thesis
    unfolding l b64_row_trillion s using m v unfolding l by simp
qed

text \<open>
  Claim C3, amended. In every retained row the payment is the monthly payment, and
  whenever the payment, the interest part and the principal part of the row are
  finite, \<open>principalPayment + interestPayment\<close> differs from \<open>monthlyPayment\<close> by at most
  the error of one binary64 rounding, \<open>(\<bar>monthlyPayment\<bar> + \<bar>interestPayment\<bar>) / 2 ^ 53\<close>
  (or \<open>2 ^ - 1075\<close>, if that is larger). As long as
  \<open>\<bar>monthlyPayment\<bar> + \<bar>interestPayment\<bar> \<le> 2 ^ 32\<close> (about \<open>4.29e9\<close>) the difference is
  within \<open>10 ^ - 6\<close>, whether the sum is taken exactly or computed in binary64. This
  holds whatever \<^verbatim>\<open>Math.pow\<close> returned for the payment.
\<close>

theorem row_sum_tolerance:
  assumes "rnd A = round_binary64"
    and "row \<in> set (amortizationSchedule (calculate A P rate n))"
    and "payment row = Fin mp" and "interestPayment row = Fin ip"
    and "principalPayment row = Fin pp"
  shows "payment row = payment_result.monthlyPayment (calculate A P rate n) \<and>
         \<bar>pp + ip - mp\<bar> \<le> max ((\<bar>mp\<bar> + \<bar>ip\<bar>) / 2 ^ 53) (1 / 2 ^ 1075) \<and>
         (\<bar>mp\<bar> + \<bar>ip\<bar> \<le> 2 ^ 32 \<longrightarrow>
            \<bar>pp + ip - mp\<bar> \<le> 1 / 10 ^ 6 \<and>
            (\<exists>s. js_add A (principalPayment row) (interestPayment row) = Fin s \<and>
                 \<bar>s - mp\<bar> \<le> 1 / 10 ^ 6))"
proof (intro conjI impI)
  from assms(2) have row: "payment row = payment_result.monthlyPayment (calculate A P rate n)"
    "principalPayment row = js_sub A (payment row) (interestPayment row)"
    by (auto elim!: schedule_row_cases simp: month_row_def)
  from row(1) show "payment row = payment_result.monthlyPayment (calculate A P rate n)" .
  from row(2) have "round_binary64 (mp - ip) = Fin pp"
    by (simp add: assms(1,3,4,5))
  then have "\<bar>pp - (mp - ip)\<bar> \<le> max (\<bar>mp - ip\<bar> / 2 ^ 53) (1 / 2 ^ 1075)"
    by (rule round_binary64_error)
  moreover have "\<bar>mp - ip\<bar> / 2 ^ 53 \<le> (\<bar>mp\<bar> + \<bar>ip\<bar>) / 2 ^ 53"
    by (intro divide_right_mono) simp_all
  ultimately show rel: "\<bar>pp + ip - mp\<bar> \<le> max ((\<bar>mp\<bar> + \<bar>ip\<bar>) / 2 ^ 53) (1 / 2 ^ 1075)"
    by (simp add: algebra_simps max_def split: if_splits)
  assume a: "\<bar>mp\<bar> + \<bar>ip\<bar> \<le> 2 ^ 32"
  then have "(\<bar>mp\<bar> + \<bar>ip\<bar>) / 2 ^ 53 \<le> 2 ^ 32 / 2 ^ 53"
    by (intro divide_right_mono) simp_all
  then have "(\<bar>mp\<bar> + \<bar>ip\<bar>) / 2 ^ 53 \<le> 1 / 2 ^ 21"
    by simp
  moreover have "(1 / 2 ^ 1075 :: real) \<le> 1 / 2 ^ 21"
    by simp
  ultimately have "max ((\<bar>mp\<bar> + \<bar>ip\<bar>) / 2 ^ 53) (1 / 2 ^ 1075) \<le> 1 / 2 ^ 21"
    by (rule max.boundedI)
  with rel have e1: "\<bar>pp + ip - mp\<bar> \<le> 1 / 2 ^ 21"
    by (rule order_trans)
  then show "\<bar>pp + ip - mp\<bar> \<le> 1 / 10 ^ 6"
    by simp
  from a have "\<bar>mp\<bar> + \<bar>ip\<bar> \<le> 4294967296"
    by simp
  moreover from e1 have "\<bar>pp + ip - mp\<bar> \<le> 1"
    by simp
  ultimately have s: "\<bar>pp + ip\<bar> \<le> 4294967297"
    by linarith
  then have "\<bar>pp + ip\<bar> \<le> 2 ^ 1023"
    by simp
  then obtain s where s1: "round_binary64 (pp + ip) = Fin s"
    by (rule round_binary64_finite)
  then have "\<bar>s - (pp + ip)\<bar> \<le> max (\<bar>pp + ip\<bar> / 2 ^ 53) (1 / 2 ^ 1075)"
    by (rule round_binary64_error)
  moreover have "max (\<bar>pp + ip\<bar> / 2 ^ 53) (1 / 2 ^ 1075) \<le> 4294967297 / 2 ^ 53"
  proof (rule max.boundedI)
    show "\<bar>pp + ip\<bar> / 2 ^ 53 \<le> 4294967297 / 2 ^ 53"
      using s by (intro divide_right_mono) simp_all
    show "(1 / 2 ^ 1075 :: real) \<le> 4294967297 / 2 ^ 53"
      by simp
  qed
  ultimately have e2: "\<bar>s - (pp + ip)\<bar> \<le> 4294967297 / 2 ^ 53"
    by (rule order_trans)
  have "\<bar>s - mp\<bar> \<le> \<bar>s - (pp + ip)\<bar> + \<bar>pp + ip - mp\<bar>"
    by linarith
  also have "\<dots> \<le> 4294967297 / 2 ^ 53 + 1 / 2 ^ 21"
    by (rule add_mono [OF e2 e1])
  also have "\<dots> \<le> 1 / 10 ^ 6"
    by simp
  finally have "\<bar>s - mp\<bar> \<le> 1 / 10 ^ 6" .
  moreover have "js_add A (principalPayment row) (interestPayment row) = Fin s"
    using s1 by (simp add: assms(1,3,4,5))
  ultimately show "\<exists>s. js_add A (principalPayment row) (interestPayment row) = Fin s \<and>
      \<bar>s - mp\<bar> \<le> 1 / 10 ^ 6"
    by blast
qed

theorem row_sum_tolerance_witness:
  "rnd binary64 = round_binary64 \<and>
   last (amortizationSchedule (calculate binary64 100000 75 1))
     \<in> set (amortizationSchedule (calculate binary64 100000 75 1)) \<and>
   payment (last (amortizationSchedule (calculate binary64 100000 75 1))) = Fin (830936814935903 / 68719476736) \<and>
   interestPayment (last (amortizationSchedule (calculate binary64 100000 75 1))) =
     Fin (1564116357526405 / 2199023255552) \<and>
   principalPayment (last (amortizationSchedule (calculate binary64 100000 75 1))) =
     Fin (6256465430105623 / 549755813888) \<and>
   6256465430105623 / 549755813888 + 1564116357526405 / 2199023255552 - 830936814935903 / 68719476736 = (1 / 2199023255552 :: real) \<and>
   \<bar>830936814935903 / 68719476736\<bar> + \<bar>1564116357526405 / 2199023255552\<bar> \<le> (2 ^ 32 :: real) \<and>
   \<bar>6256465430105623 / 549755813888 + 1564116357526405 / 2199023255552 - 830936814935903 / 68719476736 :: real\<bar> \<le> 1 / 10 ^ 6"
proof -
  let ?S = "amortizationSchedule (calculate binary64 100000 75 1)"
  have "last ?S =
      month_row binary64 (payment_result.monthlyPayment (calculate binary64 100000 75 1))
        (js_div binary64 (js_div binary64 (Fin 75) (Fin 100)) (Fin 12)) (Fin 100000) (1 * 12)"
    by (rule last_month_row) simp
  then have l: "last ?S = month_row binary64 (Fin (830936814935903 / 68719476736)) (Fin (1 / 16)) (Fin 100000) 12"
    unfolding b64_calculate_100000 by simp
  have m: "last ?S \<in> set ?S"
    by (rule last_in_set) (simp add: schedule_nonempty)
  have r: "rnd binary64 = round_binary64"
    by (simp add: binary64_def)
  have f: "payment (last ?S) = Fin (830936814935903 / 68719476736)" "interestPayment (last ?S) = Fin (1564116357526405 / 2199023255552)"
    "principalPayment (last ?S) = Fin (6256465430105623 / 549755813888)"
    unfolding l by (rule b64_row_100000)+
  have b: "\<bar>830936814935903 / 68719476736\<bar> + \<bar>1564116357526405 / 2199023255552\<bar> \<le> (2 ^ 32 :: real)"
    by simp
  have e: "6256465430105623 / 549755813888 + 1564116357526405 / 2199023255552 - 830936814935903 / 68719476736 = (1 / 2199023255552 :: real)"
    by simp
  from row_sum_tolerance [OF r m f] b have "\<bar>6256465430105623 / 549755813888 + 1564116357526405 / 2199023255552 - 830936814935903 / 68719476736 :: real\<bar> \<le> 1 / 10 ^ 6"
    by blast
  with r m f b e show ?thesis
    by blast
qed

section \<open>binary64: a loan of 100000 at 1200 percent over five years\<close>



section \<open>binary64: the first two months of a loan of 100000 at 75 percent\<close>




section \<open>Interest part and principal part from month to month\<close>

text \<open>
  One step of the loop in binary64, on finite numbers: \<open>b\<close> is the balance before the
  month, \<open>ip\<close> and \<open>pp\<close> are the month's interest and principal parts, \<open>b'\<close> the balance
  after it, \<open>ip'\<close> and \<open>pp'\<close> the parts of the next month. Each of the five roundings
  has a relative error of at most \<open>2 ^ - 53\<close>; the interest part falls by about
  \<open>pp * r\<close>, which exceeds the rounding errors when \<open>pp\<close> is at least \<open>2 ^ - 49\<close> of the
  balance and the rate at least \<open>2 ^ - 51\<close>.
\<close>

lemma round_binary64_rel:
  assumes "round_binary64 x = Fin y" and "1 / 2 ^ 1022 \<le> \<bar>x\<bar>"
  shows "\<bar>y - x\<bar> \<le> \<bar>x\<bar> / 2 ^ 53"
proof (cases x rule: round_binary64_cases)
  case subnormal
  with assms(2) show ?thesis by linarith
next
  case finite
  with assms have "y = round53 x"
    by (simp only: number.inject)
  then show ?thesis
    by (simp only: round53_error)
next
  case overflow
  from overflow(2) assms show ?thesis
    by (simp split: if_splits)
qed


lemma rel_bounds:
  fixes x y :: real
  assumes "\<bar>y - x\<bar> \<le> \<bar>x\<bar> / 2 ^ 53" and "0 < x"
  shows "x - x / 9007199254740992 \<le> y" and "y \<le> x + x / 9007199254740992"
proof -
  from assms have "\<bar>y - x\<bar> \<le> x / 9007199254740992"
    by simp
  then have "y - x \<le> x / 9007199254740992" "- (y - x) \<le> x / 9007199254740992"
    by (simp_all only: abs_le_iff)
  then show "x - x / 9007199254740992 \<le> y" and "y \<le> x + x / 9007199254740992"
    by linarith+
qed






section \<open>Signs and sizes of rounded results\<close>

text \<open>
  A number whose magnitude lies between two bounds of the normal range rounds to a
  finite number of the same sign, at most a factor 2 away from the bounds; products and
  quotients keep such bounds. \<^verbatim>\<open>0.28\<close> and \<^verbatim>\<open>0.36\<close> are the binary64 values nearest the
  literals.
\<close>

lemma round_binary64_upper:
  assumes "round_binary64 x = Fin y"
  shows "\<bar>y\<bar> \<le> 2 * \<bar>x\<bar> + 1"
proof -
  have "\<bar>x\<bar> / 2 ^ 53 \<le> \<bar>x\<bar> + 1"
    by (simp add: field_simps)
  moreover have "(1 / 2 ^ 1075 :: real) \<le> \<bar>x\<bar> + 1"
  proof -
    have "(1 / 2 ^ 1075 :: real) \<le> 1" by simp
    then show ?thesis by linarith
  qed
  ultimately have "max (\<bar>x\<bar> / 2 ^ 53) (1 / 2 ^ 1075) \<le> \<bar>x\<bar> + 1"
    by (rule max.boundedI)
  with round_binary64_error [OF assms] have "\<bar>y - x\<bar> \<le> \<bar>x\<bar> + 1"
    by (rule order_trans)
  then show ?thesis
    by linarith
qed

lemma round_binary64_range:
  assumes "lo \<le> \<bar>x\<bar>" and "\<bar>x\<bar> \<le> hi" and "1 / 2 ^ 1022 \<le> lo" and "hi \<le> 2 ^ 1023"
  obtains y where "round_binary64 x = Fin y" and "lo / 2 \<le> \<bar>y\<bar>" and "\<bar>y\<bar> \<le> 2 * hi"
    and "0 < x \<longrightarrow> 0 < y" and "x < 0 \<longrightarrow> y < 0"
proof
  from assms have "normal x"
    unfolding normal_def by linarith
  then show "round_binary64 x = Fin (round53 x)"
    by (rule round_binary64_normal)
  have "(0::real) < 1 / 2 ^ 1022"
    by simp
  with assms have x: "0 < lo" "0 \<le> \<bar>x\<bar>"
    by linarith+
  have h: "\<bar>x\<bar> / 2 ^ 53 \<le> \<bar>x\<bar> / 2"
    by (simp add: field_simps)
  from round53_bounds [of x] h assms(1) show "lo / 2 \<le> \<bar>round53 x\<bar>"
    by linarith
  have h': "\<bar>x\<bar> / 2 ^ 53 \<le> \<bar>x\<bar>"
    by (simp add: field_simps)
  from round53_bounds [of x] h' assms(2) show "\<bar>round53 x\<bar> \<le> 2 * hi"
    by linarith
  show "0 < x \<longrightarrow> 0 < round53 x" "x < 0 \<longrightarrow> round53 x < 0"
    using round53_sign [of x] by simp_all
qed

lemma abs_mult_bounds:
  fixes x y :: real
  assumes "l1 \<le> \<bar>x\<bar>" "\<bar>x\<bar> \<le> h1" "l2 \<le> \<bar>y\<bar>" "\<bar>y\<bar> \<le> h2" "0 \<le> l1" "0 \<le> l2"
  shows "l1 * l2 \<le> \<bar>x * y\<bar>" and "\<bar>x * y\<bar> \<le> h1 * h2"
  unfolding abs_mult using assms by (auto intro!: mult_mono)

lemma abs_divide_bounds:
  fixes x y :: real
  assumes "l1 \<le> \<bar>x\<bar>" "\<bar>x\<bar> \<le> h1" "l2 \<le> \<bar>y\<bar>" "\<bar>y\<bar> \<le> h2" "0 \<le> l1" "0 < l2"
  shows "l1 / h2 \<le> \<bar>x / y\<bar>" and "\<bar>x / y\<bar> \<le> h1 / l2"
  unfolding abs_divide using assms by (auto intro!: frac_le)

lemma b64_28:
  "round_binary64 (28 / 100) = Fin (1261007895663739 / 4503599627370496)"
  "round_binary64 (7 / 25) = Fin (1261007895663739 / 4503599627370496)"
  by (simp_all add: round_binary64_mid b64_defs)

lemma b64_36:
  "round_binary64 (36 / 100) = Fin (3242591731706757 / 9007199254740992)"
  "round_binary64 (9 / 25) = Fin (3242591731706757 / 9007199254740992)"
  by (simp_all add: round_binary64_mid b64_defs)

lemma round_binary64_nonneg:
  assumes "0 \<le> x" and "x \<le> 2 ^ 1000"
  obtains y where "round_binary64 x = Fin y" and "0 \<le> y" and "y \<le> 2 * x + 1"
proof -
  have "(2 ^ 1000 :: real) \<le> 2 ^ 1023"
    by simp
  with assms have "\<bar>x\<bar> \<le> 2 ^ 1023"
    by linarith
  then obtain y where y: "round_binary64 x = Fin y"
    by (rule round_binary64_finite)
  from round_binary64_sign [OF y] assms(1) have "0 \<le> y"
    by simp
  moreover from round_binary64_upper [OF y] assms(1) have "y \<le> 2 * x + 1"
    by linarith
  ultimately show ?thesis
    using y by (intro that)
qed

lemma round_binary64_pos_range:
  assumes "lo \<le> x" and "x \<le> hi" and "1 / 2 ^ 1022 \<le> lo" and "hi \<le> 2 ^ 1023"
  obtains y where "round_binary64 x = Fin y" and "0 < y" and "lo / 2 \<le> y" and "y \<le> 2 * hi"
    and "x - x / 9007199254740992 \<le> y" and "y \<le> x + x / 9007199254740992"
proof -
  have "(0::real) < 1 / 2 ^ 1022"
    by simp
  with assms have x: "0 < x" "lo \<le> \<bar>x\<bar>" "\<bar>x\<bar> \<le> hi" "1 / 2 ^ 1022 \<le> \<bar>x\<bar>"
    by linarith+
  from round_binary64_range [OF x(2,3) assms(3,4)]
  obtain y where y: "round_binary64 x = Fin y" "lo / 2 \<le> \<bar>y\<bar>" "\<bar>y\<bar> \<le> 2 * hi"
    "0 < x \<longrightarrow> 0 < y"
    by blast
  from y(4) x(1) have y0: "0 < y"
    by simp
  from round_binary64_rel [OF y(1) x(4)] have "\<bar>y - x\<bar> \<le> \<bar>x\<bar> / 2 ^ 53" .
  from rel_bounds [OF this x(1)] y y0 show ?thesis
    by (intro that [of y]) simp_all
qed

lemma enclosed_Fin: "enclosed l (Fin v) u \<longleftrightarrow> l \<le> v \<and> v \<le> u"
  by (simp add: enclosed_def)

lemma affordability_fields:
  "maxHomePrice (affordability A ai md dp rate n tax ins) =
     js_add A (maxLoanAmount A (availableForHousing A ai md) rate n tax ins) (Fin dp)"
  "principalAndInterest (paymentBreakdown (affordability A ai md dp rate n tax ins)) =
     (if js_div A (js_div A (Fin rate) (Fin 100)) (Fin 12) = Fin 0
      then js_div A (js_sub A (maxHomePrice (affordability A ai md dp rate n tax ins)) (Fin dp))
             (Fin (real (n * 12)))
      else annuity A (js_sub A (maxHomePrice (affordability A ai md dp rate n tax ins)) (Fin dp))
             (js_div A (js_div A (Fin rate) (Fin 100)) (Fin 12)) (n * 12))"
  "affordability_result.monthlyPayment (affordability A ai md dp rate n tax ins) =
     js_add A
       (js_add A (principalAndInterest (paymentBreakdown (affordability A ai md dp rate n tax ins)))
          (taxes (paymentBreakdown (affordability A ai md dp rate n tax ins))))
       (insurance (paymentBreakdown (affordability A ai md dp rate n tax ins)))"
  by (simp_all add: affordability_def Let_def)

section \<open>The affordability handler when debts exceed the cap\<close>

text \<open>
  With \<open>monthlyDebts\<close> above the cap by a relative margin of \<open>2 ^ - 50\<close>, the computed cap
  \<^verbatim>\<open>monthlyIncome * 0.36\<close> is below the debts and the amount available for housing is a
  negative number. The maximum loan amount, the home price, the loan amount
  recomputed from it and the principal-and-interest part then keep the sign, as long
  as the annuity factor is finite and the down payment does not absorb the loan
  amount.
\<close>

lemma available_below_cap:
  assumes rb: "rnd A = round_binary64"
    and ai: "1 / 2 ^ 40 \<le> annualIncome" "annualIncome \<le> 2 ^ 53"
    and md: "monthlyDebts \<le> 2 ^ 53"
    and debts: "36 / 100 * (annualIncome / 12) * (1 + 1 / 2 ^ 50) \<le> monthlyDebts"
  obtains a c where "availableForHousing A annualIncome monthlyDebts = Fin a"
    "a \<le> - (1 / 2 ^ 100)" "- (2 ^ 60) \<le> a"
    "js_mul A (js_div A (Fin annualIncome) (Fin 12)) (rnd A (36 / 100)) = Fin c"
    "c < monthlyDebts"
proof -
  let ?c28 = "1261007895663739 / 4503599627370496 :: real"
  let ?c36 = "3242591731706757 / 9007199254740992 :: real"
  have ai': "1 / 1099511627776 \<le> annualIncome" "annualIncome \<le> 9007199254740992"
    using ai by simp_all
  have md': "monthlyDebts \<le> 9007199254740992"
    using md by simp
  have "1 / 17592186044416 \<le> annualIncome / 12" "annualIncome / 12 \<le> 1125899906842624"
    using ai' by linarith+
  moreover have "(1 / 2 ^ 1022 :: real) \<le> 1 / 17592186044416"
    "(1125899906842624 :: real) \<le> 2 ^ 1023"
    by simp_all
  ultimately obtain mi where mi: "round_binary64 (annualIncome / 12) = Fin mi" "0 < mi"
    "1 / 17592186044416 / 2 \<le> mi" "mi \<le> 2 * 1125899906842624"
    "mi \<le> annualIncome / 12 + annualIncome / 12 / 9007199254740992"
    by (rule round_binary64_pos_range)
  have "1 / 140737488355328 \<le> mi * ?c28" "mi * ?c28 \<le> 2251799813685248"
    using mi(3,4) by linarith+
  moreover have "(1 / 2 ^ 1022 :: real) \<le> 1 / 140737488355328"
    "(2251799813685248 :: real) \<le> 2 ^ 1023"
    by simp_all
  ultimately obtain mh where mh: "round_binary64 (mi * ?c28) = Fin mh" "0 < mh"
    by (rule round_binary64_pos_range)
  have "1 / 140737488355328 \<le> mi * ?c36" "mi * ?c36 \<le> 2251799813685248"
    using mi(3,4) by linarith+
  moreover have "(1 / 2 ^ 1022 :: real) \<le> 1 / 140737488355328"
    "(2251799813685248 :: real) \<le> 2 ^ 1023"
    by simp_all
  ultimately obtain c where c: "round_binary64 (mi * ?c36) = Fin c" "0 < c"
    "c \<le> mi * ?c36 + mi * ?c36 / 9007199254740992"
    by (rule round_binary64_pos_range)
  have debts': "36 / 100 * (annualIncome / 12) * (1 + 1 / 1125899906842624) \<le> monthlyDebts"
    using debts by simp
  have c1: "c \<le> mi * (29206669829258407572211862989701 / 81129638414606681695789005144064)"
    using c(3) by simp
  have m1: "mi \<le> annualIncome * (3002399751580331 / 36028797018963968)"
    using mi(5) by simp
  have "mi * (29206669829258407572211862989701 / 81129638414606681695789005144064) \<le> annualIncome * (3002399751580331 / 36028797018963968) * (29206669829258407572211862989701 / 81129638414606681695789005144064)"
    using m1 by (rule mult_right_mono) simp
  with c1 have c2: "c \<le> annualIncome * (87690098239854191318148772884313680625127171031 / 2923003274661805836407369665432566039311865085952)"
    by simp
  have d1: "annualIncome * (135107988821115 / 4503599627370496) \<le> monthlyDebts"
    using debts' by simp
  have gap: "c - monthlyDebts \<le> - (annualIncome / 72057594037927936)"
    using c2 d1 ai'(1) by linarith
  have z: "c - monthlyDebts \<le> - (1 / 79228162514264337593543950336)"
    using gap ai'(1) by linarith
  have lt: "c < monthlyDebts"
    using z by linarith
  have "1 / 79228162514264337593543950336 \<le> \<bar>c - monthlyDebts\<bar>"
    "\<bar>c - monthlyDebts\<bar> \<le> 9007199254740992"
    using z c(2) md' by linarith+
  moreover have "(1 / 2 ^ 1022 :: real) \<le> 1 / 79228162514264337593543950336"
    "(9007199254740992 :: real) \<le> 2 ^ 1023"
    by simp_all
  ultimately obtain s where s: "round_binary64 (c - monthlyDebts) = Fin s"
    "1 / 79228162514264337593543950336 / 2 \<le> \<bar>s\<bar>" "\<bar>s\<bar> \<le> 2 * 9007199254740992"
    "c - monthlyDebts < 0 \<longrightarrow> s < 0"
    by (rule round_binary64_range) blast
  from s(4) lt have s0: "s < 0"
    by simp
  have e1: "js_div A (Fin annualIncome) (Fin 12) = Fin mi"
    by (simp add: rb mi)
  have e2: "rnd A (28 / 100) = Fin ?c28" "rnd A (36 / 100) = Fin ?c36"
    unfolding rb by (rule b64_28 b64_36)+
  have e3: "js_mul A (Fin mi) (Fin ?c28) = Fin mh" "js_mul A (Fin mi) (Fin ?c36) = Fin c"
    unfolding js_mul.simps rb by (rule mh c)+
  have e4: "js_sub A (Fin c) (Fin monthlyDebts) = Fin s"
    unfolding js_sub.simps rb by (rule s)
  have cap: "js_mul A (js_div A (Fin annualIncome) (Fin 12)) (rnd A (36 / 100)) = Fin c"
    unfolding e1 e2 by (rule e3)
  have "availableForHousing A annualIncome monthlyDebts = js_min (Fin mh) (Fin s)"
    unfolding availableForHousing_def Let_def e1 e2 e3 e4 ..
  also have "\<dots> = Fin s"
    using mh(2) s0 by (simp add: min_def)
  finally have av: "availableForHousing A annualIncome monthlyDebts = Fin s" .
  have "s \<le> - (1 / 79228162514264337593543950336 / 2)"
    using s(2) s0 by linarith
  also have "\<dots> \<le> - (1 / 2 ^ 100)"
    by simp
  finally have a1: "s \<le> - (1 / 2 ^ 100)" .
  have "- (2 * 9007199254740992) \<le> s"
    using s(3) s0 by linarith
  moreover have "- (2 ^ 60) \<le> - (2 * 9007199254740992 :: real)"
    by simp
  ultimately have a2: "- (2 ^ 60) \<le> s"
    by (rule order_trans [rotated])
  from av a1 a2 cap lt show ?thesis
    by (rule that)
qed

lemma rate_term:
  assumes rb: "rnd A = round_binary64" and t: "0 \<le> t" "t \<le> 2 ^ 53"
  obtains v where "js_div A (js_div A (Fin t) (Fin 100)) (Fin 12) = Fin v" "0 \<le> v" "v \<le> 2 ^ 56"
proof -
  have "0 \<le> t / 100" using t by simp
  moreover have "t / 100 \<le> 2 ^ 1000"
  proof -
    have "t / 100 \<le> 2 ^ 53" using t by simp
    then show ?thesis by (rule order_trans) simp
  qed
  ultimately obtain w where w: "round_binary64 (t / 100) = Fin w" "0 \<le> w" "w \<le> 2 * (t / 100) + 1"
    by (rule round_binary64_nonneg)
  from w(3) t have w_le: "w \<le> 2 ^ 53"
    by simp
  have "0 \<le> w / 12" using w(2) by simp
  moreover have "w / 12 \<le> 2 ^ 1000"
  proof -
    have "w / 12 \<le> 2 ^ 53" using w(2) w_le by simp
    then show ?thesis by (rule order_trans) simp
  qed
  ultimately obtain v where v: "round_binary64 (w / 12) = Fin v" "0 \<le> v" "v \<le> 2 * (w / 12) + 1"
    by (rule round_binary64_nonneg)
  from v(3) w_le w(2) have "v \<le> 2 ^ 56"
    by simp
  moreover have "js_div A (js_div A (Fin t) (Fin 100)) (Fin 12) = Fin v"
    by (simp add: rb w v)
  ultimately show ?thesis
    using v(2) by (intro that)
qed

lemma maxLoanAmount_negative:
  assumes rb: "rnd A = round_binary64"
    and a: "a \<le> - (1 / 2 ^ 100)" "- (2 ^ 60) \<le> a"
    and n: "0 < n" "real n \<le> 2 ^ 53"
    and tx: "0 \<le> tax" "tax \<le> 2 ^ 53" and ix: "0 \<le> ins" "ins \<le> 2 ^ 53"
    and f: "js_div A (js_div A (Fin rate) (Fin 100)) (Fin 12) \<noteq> Fin 0 \<longrightarrow>
      enclosed (1 / 2 ^ 100)
        (js_mul A (js_div A (js_div A (Fin rate) (Fin 100)) (Fin 12))
           (js_pow A (js_add A (Fin 1) (js_div A (js_div A (Fin rate) (Fin 100)) (Fin 12)))
              (n * 12))) (2 ^ 100) \<and>
      enclosed (1 / 2 ^ 100)
        (js_sub A
           (js_pow A (js_add A (Fin 1) (js_div A (js_div A (Fin rate) (Fin 100)) (Fin 12)))
              (n * 12)) (Fin 1)) (2 ^ 100)"
    and L: "maxLoanAmount A (Fin a) rate n tax ins = Fin L"
  shows "L < 0 \<and> 1 / 2 ^ 306 \<le> \<bar>L\<bar> \<and> \<bar>L\<bar> \<le> 2 ^ 264"
proof -
  let ?r = "js_div A (js_div A (Fin rate) (Fin 100)) (Fin 12)"
  have a_abs: "1 / 2 ^ 100 \<le> \<bar>a\<bar>" "\<bar>a\<bar> \<le> 2 ^ 60" "a < 0"
  proof -
    have "(0::real) < 1 / 2 ^ 100" by simp
    with a show "a < 0" by linarith
    then show "1 / 2 ^ 100 \<le> \<bar>a\<bar>" "\<bar>a\<bar> \<le> 2 ^ 60"
      using a by linarith+
  qed
  have z: "(1 / 2 ^ 1022 :: real) \<le> 1 / 2 ^ 306" "(1 / 2 ^ 1022 :: real) \<le> 1 / 2 ^ 305"
    "(1 / 2 ^ 1022 :: real) \<le> 1 / 2 ^ 203" "(1 / 2 ^ 1022 :: real) \<le> 1 / 2 ^ 100"
    by simp_all
  show ?thesis
  proof (cases "?r = Fin 0")
    case True
    let ?N = "real (n * 12)"
    have N: "12 \<le> \<bar>?N\<bar>" "\<bar>?N\<bar> \<le> 2 ^ 57"
      using n by simp_all
    have "1 / 2 ^ 100 * 12 \<le> \<bar>a * ?N\<bar>" "\<bar>a * ?N\<bar> \<le> 2 ^ 60 * 2 ^ 57"
      by (rule abs_mult_bounds [OF a_abs(1,2) N]; simp)+
    then have b: "1 / 2 ^ 100 \<le> \<bar>a * ?N\<bar>" "\<bar>a * ?N\<bar> \<le> 2 ^ 117"
      by simp_all
    have "(2 ^ 117 :: real) \<le> 2 ^ 1023"
      by simp
    from round_binary64_range [OF b z(4) this]
    obtain y where y: "round_binary64 (a * ?N) = Fin y" "1 / 2 ^ 100 / 2 \<le> \<bar>y\<bar>"
      "\<bar>y\<bar> \<le> 2 * 2 ^ 117" "a * ?N < 0 \<longrightarrow> y < 0"
      by blast
    from L True have "round_binary64 (a * ?N) = Fin L"
      by (simp add: maxLoanAmount_def Let_def rb)
    with y(1) have yl: "y = L" by simp
    have "a * ?N < 0"
      using a_abs(3) n(1) by (simp add: mult_neg_pos)
    with y(4) have "L < 0"
      by (simp add: yl)
    moreover have "1 / 2 ^ 306 \<le> \<bar>L\<bar>"
      using y(2) unfolding yl by (rule order_trans [rotated]) simp
    moreover have "\<bar>L\<bar> \<le> 2 ^ 264"
      using y(3) unfolding yl by (rule order_trans) simp
    ultimately show ?thesis
      by (intro conjI)
  next
    case False
    let ?pw = "js_pow A (js_add A (Fin 1) ?r) (n * 12)"
    from f False obtain t d where t: "js_mul A ?r ?pw = Fin t" "1 / 2 ^ 100 \<le> t" "t \<le> 2 ^ 100"
      and d: "js_sub A ?pw (Fin 1) = Fin d" "1 / 2 ^ 100 \<le> d" "d \<le> 2 ^ 100"
      unfolding enclosed_def by blast
    have p100: "(0::real) < 1 / 2 ^ 100"
      by simp
    with t d have tpos: "0 < t" and dpos: "0 < d"
      by linarith+
    have td: "1 / 2 ^ 100 \<le> \<bar>t\<bar>" "\<bar>t\<bar> \<le> 2 ^ 100" "1 / 2 ^ 100 \<le> \<bar>d\<bar>" "\<bar>d\<bar> \<le> 2 ^ 100"
      using t d tpos dpos by simp_all
    have "1 / 2 ^ 100 / 2 ^ 100 \<le> \<bar>t / d\<bar>" "\<bar>t / d\<bar> \<le> 2 ^ 100 / (1 / 2 ^ 100)"
      by (rule abs_divide_bounds [OF td]; simp)+
    then have q: "1 / 2 ^ 200 \<le> \<bar>t / d\<bar>" "\<bar>t / d\<bar> \<le> 2 ^ 200"
      by simp_all
    have "(1 / 2 ^ 1022 :: real) \<le> 1 / 2 ^ 200" "(2 ^ 200 :: real) \<le> 2 ^ 1023"
      by simp_all
    from round_binary64_range [OF q this]
    obtain g where g: "round_binary64 (t / d) = Fin g" "1 / 2 ^ 200 / 2 \<le> \<bar>g\<bar>"
      "\<bar>g\<bar> \<le> 2 * 2 ^ 200" "0 < t / d \<longrightarrow> 0 < g"
      by blast
    have gpos: "0 < g"
      using g(4) tpos dpos by simp
    with g have gb: "1 / 2 ^ 201 \<le> g" "g \<le> 2 ^ 201"
      by simp_all
    obtain tv where tv: "js_div A (js_div A (Fin tax) (Fin 100)) (Fin 12) = Fin tv"
      "0 \<le> tv" "tv \<le> 2 ^ 56"
      using rate_term [OF rb tx] by blast
    obtain iv where iv: "js_div A (js_div A (Fin ins) (Fin 100)) (Fin 12) = Fin iv"
      "0 \<le> iv" "iv \<le> 2 ^ 56"
      using rate_term [OF rb ix] by blast
    have "1 / 2 ^ 201 \<le> \<bar>g + tv\<bar>" "\<bar>g + tv\<bar> \<le> 2 ^ 202"
      using gb tv by simp_all
    moreover have "(1 / 2 ^ 1022 :: real) \<le> 1 / 2 ^ 201" "(2 ^ 202 :: real) \<le> 2 ^ 1023"
      by simp_all
    ultimately obtain g1 where g1: "round_binary64 (g + tv) = Fin g1" "1 / 2 ^ 201 / 2 \<le> \<bar>g1\<bar>"
      "\<bar>g1\<bar> \<le> 2 * 2 ^ 202" "0 < g + tv \<longrightarrow> 0 < g1"
      by (rule round_binary64_range) blast
    have g1pos: "0 < g1"
      using g1(4) gpos tv(2) by simp
    with g1 have g1b: "1 / 2 ^ 202 \<le> g1" "g1 \<le> 2 ^ 203"
      by simp_all
    have "1 / 2 ^ 202 \<le> \<bar>g1 + iv\<bar>" "\<bar>g1 + iv\<bar> \<le> 2 ^ 204"
      using g1b iv by simp_all
    moreover have "(1 / 2 ^ 1022 :: real) \<le> 1 / 2 ^ 202" "(2 ^ 204 :: real) \<le> 2 ^ 1023"
      by simp_all
    ultimately obtain dl where dl: "round_binary64 (g1 + iv) = Fin dl" "1 / 2 ^ 202 / 2 \<le> \<bar>dl\<bar>"
      "\<bar>dl\<bar> \<le> 2 * 2 ^ 204" "0 < g1 + iv \<longrightarrow> 0 < dl"
      by (rule round_binary64_range) blast
    have dlpos: "0 < dl"
      using dl(4) g1pos iv(2) by simp
    with dl have dlb: "1 / 2 ^ 203 \<le> \<bar>dl\<bar>" "\<bar>dl\<bar> \<le> 2 ^ 205"
      by simp_all
    have "1 / 2 ^ 100 / 2 ^ 205 \<le> \<bar>a / dl\<bar>" "\<bar>a / dl\<bar> \<le> 2 ^ 60 / (1 / 2 ^ 203)"
      by (rule abs_divide_bounds [OF a_abs(1,2) dlb]; simp)+
    then have ab: "1 / 2 ^ 305 \<le> \<bar>a / dl\<bar>" "\<bar>a / dl\<bar> \<le> 2 ^ 263"
      by simp_all
    have "(2 ^ 263 :: real) \<le> 2 ^ 1023"
      by simp
    from round_binary64_range [OF ab z(2) this]
    obtain y where y: "round_binary64 (a / dl) = Fin y" "1 / 2 ^ 305 / 2 \<le> \<bar>y\<bar>"
      "\<bar>y\<bar> \<le> 2 * 2 ^ 263" "a / dl < 0 \<longrightarrow> y < 0"
      by blast
    have e1: "js_div A (Fin t) (Fin d) = Fin g"
      using dpos g(1) by (simp add: rb)
    have e2: "js_add A (Fin g) (Fin tv) = Fin g1" "js_add A (Fin g1) (Fin iv) = Fin dl"
      unfolding js_add.simps rb by (rule g1 dl)+
    have e3: "js_div A (Fin a) (Fin dl) = Fin y"
      using dlpos y(1) by (simp add: rb)
    from L False have "Fin y = Fin L"
      unfolding maxLoanAmount_def Let_def t(1) d(1) e1 tv(1) iv(1) e2 e3 by simp
    then have yl: "y = L" by simp
    have "a / dl < 0"
      using a_abs(3) dlpos by (simp add: divide_neg_pos)
    with y(4) have "L < 0"
      by (simp add: yl)
    moreover have "1 / 2 ^ 306 \<le> \<bar>L\<bar>"
      using y(2) unfolding yl by simp
    moreover have "\<bar>L\<bar> \<le> 2 ^ 264"
      using y(3) unfolding yl by simp
    ultimately show ?thesis
      by (intro conjI)
  qed
qed

lemma home_price_negative_loan:
  assumes L: "L < 0" "1 / 2 ^ 306 \<le> \<bar>L\<bar>" "\<bar>L\<bar> \<le> 2 ^ 264"
    and dp: "0 \<le> dp" "dp \<le> 2 ^ 52 * (- L)"
  obtains h l where "round_binary64 (L + dp) = Fin h" "h < dp"
    "\<bar>h - dp - L\<bar> \<le> (dp - L) / 2 ^ 53"
    "round_binary64 (h - dp) = Fin l" "l < 0" "1 / 2 ^ 309 \<le> \<bar>l\<bar>" "\<bar>l\<bar> \<le> 2 ^ 266"
proof -
  have dpn: "dp \<le> 4503599627370496 * (- L)"
    using dp(2) by simp
  have "2 ^ 52 * (- L) \<le> 2 ^ 52 * (2 ^ 264 :: real)"
    using L(1,3) by (intro mult_left_mono) simp_all
  with dp(2) have dp_le: "dp \<le> 2 ^ 316"
    by simp
  have p: "(2 ^ 264 :: real) \<le> 2 ^ 316" "(2 ^ 316 :: real) + 2 ^ 316 = 2 ^ 317"
    "(2 ^ 317 :: real) \<le> 2 ^ 1023"
    by simp_all
  have "\<bar>L + dp\<bar> \<le> \<bar>L\<bar> + dp"
    using dp(1) by linarith
  with L(3) dp_le p have "\<bar>L + dp\<bar> \<le> 2 ^ 1023"
    by linarith
  then obtain h where h: "round_binary64 (L + dp) = Fin h"
    by (rule round_binary64_finite)
  have e0: "\<bar>h - (L + dp)\<bar> \<le> max (\<bar>L + dp\<bar> / 2 ^ 53) (1 / 2 ^ 1075)"
    using h by (rule round_binary64_error)
  have s: "\<bar>L\<bar> \<le> dp - L" "\<bar>L + dp\<bar> \<le> dp - L"
    using L(1) dp(1) by linarith+
  have "\<bar>L + dp\<bar> / 2 ^ 53 \<le> (dp - L) / 2 ^ 53"
    using s(2) by (simp add: divide_right_mono)
  moreover have "1 / 2 ^ 1075 \<le> (dp - L) / 2 ^ 53"
  proof -
    have "(1 / 2 ^ 1075 :: real) \<le> 1 / 2 ^ 306 / 2 ^ 53"
      by simp
    also have "\<dots> \<le> (dp - L) / 2 ^ 53"
      using s(1) L(2) by (intro divide_right_mono) simp_all
    finally show ?thesis .
  qed
  ultimately have "max (\<bar>L + dp\<bar> / 2 ^ 53) (1 / 2 ^ 1075) \<le> (dp - L) / 2 ^ 53"
    by (rule max.boundedI)
  with e0 have e: "\<bar>h - (L + dp)\<bar> \<le> (dp - L) / 2 ^ 53"
    by (rule order_trans)
  have e': "\<bar>h - dp - L\<bar> \<le> (dp - L) / 2 ^ 53"
    using e by (simp add: algebra_simps)
  have en: "\<bar>h - dp - L\<bar> \<le> dp / 9007199254740992 - L / 9007199254740992"
    using e' by (simp add: diff_divide_distrib)
  have up: "h - dp \<le> L / 4" and lo: "2 * L \<le> h - dp"
    using en dpn L(1) by linarith+
  from up L(1) have hdp: "h < dp" "h - dp < 0"
    by linarith+
  have a: "\<bar>L\<bar> / 4 \<le> \<bar>h - dp\<bar>" "\<bar>h - dp\<bar> \<le> 2 * \<bar>L\<bar>"
    using up lo L(1) by linarith+
  have "1 / 2 ^ 306 / 4 \<le> \<bar>L\<bar> / 4" "2 * \<bar>L\<bar> \<le> 2 * 2 ^ 264"
    using L(2,3) by simp_all
  with a have b: "1 / 2 ^ 306 / 4 \<le> \<bar>h - dp\<bar>" "\<bar>h - dp\<bar> \<le> 2 * 2 ^ 264"
    by (blast intro: order_trans)+
  have b': "1 / 2 ^ 308 \<le> \<bar>h - dp\<bar>" "\<bar>h - dp\<bar> \<le> 2 ^ 265"
    using b by simp_all
  have "(1 / 2 ^ 1022 :: real) \<le> 1 / 2 ^ 308" "(2 ^ 265 :: real) \<le> 2 ^ 1023"
    by simp_all
  from round_binary64_range [OF b' this]
  obtain l where l: "round_binary64 (h - dp) = Fin l" "1 / 2 ^ 308 / 2 \<le> \<bar>l\<bar>"
    "\<bar>l\<bar> \<le> 2 * 2 ^ 265" "h - dp < 0 \<longrightarrow> l < 0"
    by blast
  from l(4) hdp(2) have "l < 0"
    by simp
  moreover from l(2) have "1 / 2 ^ 309 \<le> \<bar>l\<bar>"
    by simp
  moreover from l(3) have "\<bar>l\<bar> \<le> 2 ^ 266"
    by simp
  ultimately show ?thesis
    using h hdp(1) e' l(1) by (intro that)
qed

lemma principal_and_interest_negative:
  assumes rb: "rnd A = round_binary64"
    and l: "l < 0" "1 / 2 ^ 309 \<le> \<bar>l\<bar>" "\<bar>l\<bar> \<le> 2 ^ 266"
    and n: "0 < n" "real n \<le> 2 ^ 53"
    and f: "r \<noteq> Fin 0 \<longrightarrow>
      enclosed (1 / 2 ^ 100) (js_mul A r (js_pow A (js_add A (Fin 1) r) (n * 12))) (2 ^ 100) \<and>
      enclosed (1 / 2 ^ 100) (js_sub A (js_pow A (js_add A (Fin 1) r) (n * 12)) (Fin 1)) (2 ^ 100)"
  obtains p where
    "(if r = Fin 0 then js_div A (Fin l) (Fin (real (n * 12)))
      else annuity A (Fin l) r (n * 12)) = Fin p" "p < 0"
proof (cases "r = Fin 0")
  case True
  let ?N = "real (n * 12)"
  have N: "12 \<le> \<bar>?N\<bar>" "\<bar>?N\<bar> \<le> 2 ^ 57" "0 < ?N"
    using n by simp_all
  have "1 / 2 ^ 309 / 2 ^ 57 \<le> \<bar>l / ?N\<bar>" "\<bar>l / ?N\<bar> \<le> 2 ^ 266 / 12"
    by (rule abs_divide_bounds [OF l(2,3) N(1,2)]; simp)+
  then have b: "1 / 2 ^ 366 \<le> \<bar>l / ?N\<bar>" "\<bar>l / ?N\<bar> \<le> 2 ^ 266"
    by simp_all
  have "(1 / 2 ^ 1022 :: real) \<le> 1 / 2 ^ 366" "(2 ^ 266 :: real) \<le> 2 ^ 1023"
    by simp_all
  from round_binary64_range [OF b this]
  obtain p where p: "round_binary64 (l / ?N) = Fin p" "l / ?N < 0 \<longrightarrow> p < 0"
    by blast
  have "l / ?N < 0"
    using l(1) N(3) by (simp only: divide_neg_pos)
  with p(2) have "p < 0"
    by simp
  moreover have "js_div A (Fin l) (Fin ?N) = Fin p"
    using N(3) p(1) by (simp add: rb)
  ultimately show ?thesis
    using True by (intro that [of p]) simp_all
next
  case False
  let ?pw = "js_pow A (js_add A (Fin 1) r) (n * 12)"
  from f False obtain t d where t: "js_mul A r ?pw = Fin t" "1 / 2 ^ 100 \<le> t" "t \<le> 2 ^ 100"
    and d: "js_sub A ?pw (Fin 1) = Fin d" "1 / 2 ^ 100 \<le> d" "d \<le> 2 ^ 100"
    unfolding enclosed_def by blast
  have p100: "(0::real) < 1 / 2 ^ 100"
    by simp
  with t d have tpos: "0 < t" and dpos: "0 < d"
    by linarith+
  have td: "1 / 2 ^ 100 \<le> \<bar>t\<bar>" "\<bar>t\<bar> \<le> 2 ^ 100" "1 / 2 ^ 100 \<le> \<bar>d\<bar>" "\<bar>d\<bar> \<le> 2 ^ 100"
    using t d tpos dpos by simp_all
  have "1 / 2 ^ 309 * (1 / 2 ^ 100) \<le> \<bar>l * t\<bar>" "\<bar>l * t\<bar> \<le> 2 ^ 266 * 2 ^ 100"
    by (rule abs_mult_bounds [OF l(2,3) td(1,2)]; simp)+
  then have b: "1 / 2 ^ 409 \<le> \<bar>l * t\<bar>" "\<bar>l * t\<bar> \<le> 2 ^ 366"
    by simp_all
  have "(1 / 2 ^ 1022 :: real) \<le> 1 / 2 ^ 409" "(2 ^ 366 :: real) \<le> 2 ^ 1023"
    by simp_all
  from round_binary64_range [OF b this]
  obtain x where x: "round_binary64 (l * t) = Fin x" "1 / 2 ^ 409 / 2 \<le> \<bar>x\<bar>"
    "\<bar>x\<bar> \<le> 2 * 2 ^ 366" "l * t < 0 \<longrightarrow> x < 0"
    by blast
  have "l * t < 0"
    using l(1) tpos by (simp only: mult_neg_pos)
  with x(4) have xneg: "x < 0"
    by simp
  have xb: "1 / 2 ^ 410 \<le> \<bar>x\<bar>" "\<bar>x\<bar> \<le> 2 ^ 367"
    using x(2,3) by simp_all
  have "1 / 2 ^ 410 / 2 ^ 100 \<le> \<bar>x / d\<bar>" "\<bar>x / d\<bar> \<le> 2 ^ 367 / (1 / 2 ^ 100)"
    by (rule abs_divide_bounds [OF xb td(3,4)]; simp)+
  then have c: "1 / 2 ^ 510 \<le> \<bar>x / d\<bar>" "\<bar>x / d\<bar> \<le> 2 ^ 467"
    by simp_all
  have "(1 / 2 ^ 1022 :: real) \<le> 1 / 2 ^ 510" "(2 ^ 467 :: real) \<le> 2 ^ 1023"
    by simp_all
  from round_binary64_range [OF c this]
  obtain p where p: "round_binary64 (x / d) = Fin p" "x / d < 0 \<longrightarrow> p < 0"
    by blast
  have "x / d < 0"
    using xneg dpos by (simp only: divide_neg_pos)
  with p(2) have "p < 0"
    by simp
  moreover have "js_mul A (Fin l) (Fin t) = Fin x"
    by (simp add: rb x(1))
  then have "annuity A (Fin l) r (n * 12) = Fin p"
    unfolding annuity_def t(1) d(1) using dpos p(1) by (simp add: rb)
  ultimately show ?thesis
    using False by (intro that [of p]) simp_all
qed

section \<open>binary64: three affordability requests with debts above the cap\<close>

text \<open>
  The handler followed in binary64, one rounding after the other, on three requests
  whose \<open>monthlyDebts\<close> are above \<open>0.36 * (annualIncome / 12)\<close>, and on a fourth that the
  amended claim below covers.
\<close>

lemma b64_available_60000:
  "availableForHousing binary64 60000 2000 = Fin (- 200)"
proof -
  have mi: "js_div binary64 (Fin 60000) (Fin 12) = Fin 5000"
    by (simp add: round_binary64_mid b64_defs)
  have c: "rnd binary64 (28 / 100) = Fin (1261007895663739 / 4503599627370496)" "rnd binary64 (36 / 100) = Fin (3242591731706757 / 9007199254740992)"
    unfolding rnd_binary64 by (rule b64_28 b64_36)+
  have mh: "js_mul binary64 (Fin 5000) (Fin (1261007895663739 / 4503599627370496)) = Fin (6157265115545601 / 4398046511104)"
    by (simp add: round_binary64_mid b64_defs)
  have mt: "js_mul binary64 (Fin 5000) (Fin (3242591731706757 / 9007199254740992)) = Fin 1800"
    by (simp add: round_binary64_mid b64_defs)
  have t: "js_sub binary64 (Fin 1800) (Fin 2000) = Fin (- 200)"
    by (simp add: round_binary64_mid b64_defs)
  have mn: "js_min (Fin (6157265115545601 / 4398046511104)) (Fin (- 200)) = Fin (- 200)"
    by simp
  show ?thesis
    unfolding availableForHousing_def Let_def mi c mh mt t mn ..
qed

lemma b64_available_30007:
  "availableForHousing binary64 30007 (989791362440233 / 1099511627776) = Fin 0"
proof -
  have mi: "js_div binary64 (Fin 30007) (Fin 12) = Fin (5498840902445739 / 2199023255552)"
    by (simp add: round_binary64_mid b64_defs)
  have c: "rnd binary64 (28 / 100) = Fin (1261007895663739 / 4503599627370496)" "rnd binary64 (36 / 100) = Fin (3242591731706757 / 9007199254740992)"
    unfolding rnd_binary64 by (rule b64_28 b64_36)+
  have mh: "js_mul binary64 (Fin (5498840902445739 / 2199023255552)) (Fin (1261007895663739 / 4503599627370496)) = Fin (1539675452684807 / 2199023255552)"
    by (simp add: round_binary64_mid b64_defs)
  have mt: "js_mul binary64 (Fin (5498840902445739 / 2199023255552)) (Fin (3242591731706757 / 9007199254740992)) = Fin (989791362440233 / 1099511627776)"
    by (simp add: round_binary64_mid b64_defs)
  have t: "js_sub binary64 (Fin (989791362440233 / 1099511627776)) (Fin (989791362440233 / 1099511627776)) = Fin 0"
    by simp
  have mn: "js_min (Fin (1539675452684807 / 2199023255552)) (Fin 0) = Fin 0"
    by simp
  show ?thesis
    unfolding availableForHousing_def Let_def mi c mh mt t mn ..
qed

lemma b64_available_1200:
  "availableForHousing binary64 1200 (1153 / 32) = Fin (- (1 / 32))"
proof -
  have mi: "js_div binary64 (Fin 1200) (Fin 12) = Fin 100"
    by (simp add: round_binary64_mid b64_defs)
  have c: "rnd binary64 (28 / 100) = Fin (1261007895663739 / 4503599627370496)" "rnd binary64 (36 / 100) = Fin (3242591731706757 / 9007199254740992)"
    unfolding rnd_binary64 by (rule b64_28 b64_36)+
  have mh: "js_mul binary64 (Fin 100) (Fin (1261007895663739 / 4503599627370496)) = Fin (7881299347898369 / 281474976710656)"
    by (simp add: round_binary64_mid b64_defs)
  have mt: "js_mul binary64 (Fin 100) (Fin (3242591731706757 / 9007199254740992)) = Fin 36"
    by (simp add: round_binary64_mid b64_defs)
  have t: "js_sub binary64 (Fin 36) (Fin (1153 / 32)) = Fin (- (1 / 32))"
    by (simp add: round_binary64_mid b64_defs)
  have mn: "js_min (Fin (7881299347898369 / 281474976710656)) (Fin (- (1 / 32))) = Fin (- (1 / 32))"
    by simp
  show ?thesis
    unfolding availableForHousing_def Let_def mi c mh mt t mn ..
qed

lemma b64_factor_75:
  "js_div binary64 (js_div binary64 (Fin 75) (Fin 100)) (Fin 12) = Fin (1 / 16)"
  "js_mul binary64 (Fin (1 / 16)) (js_pow binary64 (js_add binary64 (Fin 1) (Fin (1 / 16))) (1 * 12)) =
     Fin (582622237229761 / 4503599627370496)"
  "js_sub binary64 (js_pow binary64 (js_add binary64 (Fin 1) (Fin (1 / 16))) (1 * 12)) (Fin 1) =
     Fin (301147260519105 / 281474976710656)"
proof -
  show "js_div binary64 (js_div binary64 (Fin 75) (Fin 100)) (Fin 12) = Fin (1 / 16)"
    by (simp add: round_binary64_mid b64_defs)
  have q: "js_add binary64 (Fin 1) (Fin (1 / 16)) = Fin (17 / 16)"
    by (simp add: round_binary64_mid b64_defs)
  have n: "(1::nat) * 12 = 12"
    by simp
  have "(17 / 16 :: real) ^ 12 = 582622237229761 / 281474976710656"
    by (simp add: power_divide)
  moreover have "round_binary64 (582622237229761 / 281474976710656) = Fin (582622237229761 / 281474976710656)"
    by (simp add: round_binary64_mid b64_defs)
  ultimately have pw: "js_pow binary64 (Fin (17 / 16)) 12 = Fin (582622237229761 / 281474976710656)"
    by (simp only: js_pow_Fin pwr_binary64)
  have t: "js_mul binary64 (Fin (1 / 16)) (Fin (582622237229761 / 281474976710656)) = Fin (582622237229761 / 4503599627370496)"
    by (simp add: round_binary64_mid b64_defs)
  have d: "js_sub binary64 (Fin (582622237229761 / 281474976710656)) (Fin 1) = Fin (301147260519105 / 281474976710656)"
    by (simp add: round_binary64_mid b64_defs)
  show "js_mul binary64 (Fin (1 / 16))
      (js_pow binary64 (js_add binary64 (Fin 1) (Fin (1 / 16))) (1 * 12)) = Fin (582622237229761 / 4503599627370496)"
    unfolding q n pw by (rule t)
  show "js_sub binary64 (js_pow binary64 (js_add binary64 (Fin 1) (Fin (1 / 16))) (1 * 12))
      (Fin 1) = Fin (301147260519105 / 281474976710656)"
    unfolding q n pw by (rule d)
qed

lemma b64_loan_60000:
  "maxLoanAmount binary64 (Fin (- 200)) 75 1 0 0 = Fin (- (7274475013529661 / 4398046511104))"
proof -
  have nz: "Fin (1 / 16) \<noteq> Fin 0"
    by simp
  have f: "js_div binary64 (Fin (582622237229761 / 4503599627370496)) (Fin (301147260519105 / 281474976710656)) = Fin (4356502008291147 / 36028797018963968)"
    by (simp add: round_binary64_mid b64_defs)
  have z: "js_div binary64 (js_div binary64 (Fin 0) (Fin 100)) (Fin 12) = Fin 0"
    by simp
  have g: "js_add binary64 (Fin (4356502008291147 / 36028797018963968)) (Fin 0) = Fin (4356502008291147 / 36028797018963968)"
    by (simp add: round_binary64_mid b64_defs)
  have l: "js_div binary64 (Fin (- 200)) (Fin (4356502008291147 / 36028797018963968)) = Fin (- (7274475013529661 / 4398046511104))"
    by (simp add: round_binary64_mid b64_defs)
  show ?thesis
    unfolding maxLoanAmount_def Let_def b64_factor_75 if_not_P [OF nz] f z g l ..
qed

lemma b64_loan_30007: "maxLoanAmount binary64 (Fin 0) 0 1 0 0 = Fin 0"
  by (simp add: maxLoanAmount_def Let_def)

lemma b64_loan_1200: "maxLoanAmount binary64 (Fin (- (1 / 32))) 0 1 0 0 = Fin (- (3 / 8))"
  by (simp add: maxLoanAmount_def Let_def round_binary64_mid b64_defs)

lemma b64_absorbed:
  "js_add binary64 (Fin (- (3 / 8))) (Fin 9000000000000000) = Fin 9000000000000000"
  by (simp add: round_binary64_mid b64_defs)

lemma b64_loan_NaN: "maxLoanAmount binary64 (Fin (- 200)) 1200 100 0 0 = NaN"
proof -
  have "js_add binary64 (Fin 1) (Fin 1) = Fin 2"
    by (simp add: round_binary64_mid b64_defs)
  moreover have "js_pow binary64 (Fin 2) 1200 = PInf"
    by (simp only: js_pow_Fin pwr_binary64 b64_pow_overflow)
  ultimately show ?thesis
    by (simp only: maxLoanAmount_def Let_def b64_rate_1200) (simp add: infinity_def)
qed

section \<open>Debts above the back-end cap\<close>

text \<open>
  Claim C7 says that for every valid input with
  \<open>monthlyDebts > 0.36 * (annualIncome / 12)\<close> the amount available for housing is
  negative, \<open>maxHomePrice - downPayment\<close> is negative, and the negative value reaches
  \<open>principalAndInterest\<close> and \<open>monthlyPayment\<close>. The handler computes all of this in
  binary64, and each part of the claim fails on a valid request:
  \<^item> \<^verbatim>\<open>{annualIncome: 30007, monthlyDebts: 900.21, downPayment: 0, interestRate: 0,
    loanTerm: 1}\<close>: the debts (the binary64 value nearest \<open>900.21\<close>) are above the cap,
    but the computed cap \<^verbatim>\<open>monthlyIncome * 0.36\<close> rounds to the same binary64 value, so
    \<open>availableForHousing\<close> is \<open>0\<close>, and so is \<open>maxHomePrice\<close>;
  \<^item> \<^verbatim>\<open>{annualIncome: 1200, monthlyDebts: 36.03125, downPayment: 9e15, interestRate: 0,
    loanTerm: 1}\<close>: \<open>availableForHousing = - 1 / 32\<close> and the maximum loan amount is
    \<open>- 3 / 8\<close>, but \<open>- 3 / 8 + 9e15\<close> rounds to \<open>9e15\<close>, so \<open>maxHomePrice - downPayment\<close> and
    \<open>principalAndInterest\<close> are \<open>0\<close>;
  \<^item> \<^verbatim>\<open>{annualIncome: 60000, monthlyDebts: 2000, downPayment: 20000, interestRate: 1200,
    loanTerm: 100}\<close>: \<open>availableForHousing = - 200\<close>, but \<^verbatim>\<open>Math.pow(2, 1200)\<close> overflows,
    the annuity factor is \<^verbatim>\<open>Infinity / Infinity\<close>, and \<open>maxHomePrice\<close> and
    \<open>principalAndInterest\<close> are \<^verbatim>\<open>NaN\<close>.
\<close>

theorem negative_affordability_counterexample:
  "valid_affordability 30007 (989791362440233 / 1099511627776) 0 0 1 0 0 \<and>
   36 / 100 * (30007 / 12) < (989791362440233 / 1099511627776 :: real) \<and>
   availableForHousing binary64 30007 (989791362440233 / 1099511627776) = Fin 0 \<and>
   maxHomePrice (affordability binary64 30007 (989791362440233 / 1099511627776) 0 0 1 0 0) =
     Fin 0 \<and>
   valid_affordability 1200 (1153 / 32) 9000000000000000 0 1 0 0 \<and>
   36 / 100 * (1200 / 12) < (1153 / 32 :: real) \<and>
   availableForHousing binary64 1200 (1153 / 32) = Fin (- (1 / 32)) \<and>
   maxLoanAmount binary64 (availableForHousing binary64 1200 (1153 / 32)) 0 1 0 0 =
     Fin (- (3 / 8)) \<and>
   maxHomePrice (affordability binary64 1200 (1153 / 32) 9000000000000000 0 1 0 0) =
     Fin 9000000000000000 \<and>
   js_sub binary64
     (maxHomePrice (affordability binary64 1200 (1153 / 32) 9000000000000000 0 1 0 0))
     (Fin 9000000000000000) = Fin 0 \<and>
   principalAndInterest
     (paymentBreakdown (affordability binary64 1200 (1153 / 32) 9000000000000000 0 1 0 0)) =
     Fin 0 \<and>
   valid_affordability 60000 2000 20000 1200 100 0 0 \<and>
   36 / 100 * (60000 / 12) < (2000 :: real) \<and>
   availableForHousing binary64 60000 2000 = Fin (- 200) \<and>
   maxHomePrice (affordability binary64 60000 2000 20000 1200 100 0 0) = NaN \<and>
   principalAndInterest
     (paymentBreakdown (affordability binary64 60000 2000 20000 1200 100 0 0)) = NaN"
proof -
  have v: "valid_affordability 30007 (989791362440233 / 1099511627776) 0 0 1 0 0"
    "valid_affordability 1200 (1153 / 32) 9000000000000000 0 1 0 0"
    "valid_affordability 60000 2000 20000 1200 100 0 0"
    by (simp_all add: valid_affordability_def safe_def)
  have d: "36 / 100 * (30007 / 12) < (989791362440233 / 1099511627776 :: real)"
    "36 / 100 * (1200 / 12) < (1153 / 32 :: real)" "36 / 100 * (60000 / 12) < (2000 :: real)"
    by simp_all
  have h1: "maxHomePrice
      (affordability binary64 30007 (989791362440233 / 1099511627776) 0 0 1 0 0) = Fin 0"
    unfolding affordability_fields(1) b64_available_30007 b64_loan_30007 by simp
  have l2: "maxLoanAmount binary64 (availableForHousing binary64 1200 (1153 / 32)) 0 1 0 0 =
      Fin (- (3 / 8))"
    unfolding b64_available_1200 by (rule b64_loan_1200)
  have h2: "maxHomePrice (affordability binary64 1200 (1153 / 32) 9000000000000000 0 1 0 0) =
      Fin 9000000000000000"
    unfolding affordability_fields(1) l2 by (rule b64_absorbed)
  have s2: "js_sub binary64
      (maxHomePrice (affordability binary64 1200 (1153 / 32) 9000000000000000 0 1 0 0))
      (Fin 9000000000000000) = Fin 0"
    unfolding h2 by simp
  have p2: "principalAndInterest
      (paymentBreakdown (affordability binary64 1200 (1153 / 32) 9000000000000000 0 1 0 0)) =
      Fin 0"
    unfolding affordability_fields(2) s2 by simp
  have h3: "maxHomePrice (affordability binary64 60000 2000 20000 1200 100 0 0) = NaN"
    unfolding affordability_fields(1) b64_available_60000 b64_loan_NaN by simp
  have p3: "principalAndInterest
      (paymentBreakdown (affordability binary64 60000 2000 20000 1200 100 0 0)) = NaN"
    unfolding affordability_fields(2) h3 b64_rate_1200 by (simp add: annuity_def)
  from v d b64_available_30007 h1 b64_available_1200 l2 h2 s2 p2 b64_available_60000 h3 p3
  show ?thesis
    by (intro conjI)
qed

text \<open>
  Claim C7, amended. For every valid input whose \<open>monthlyDebts\<close> exceed the back-end cap
  \<open>0.36 * (annualIncome / 12)\<close> by the relative margin \<open>2 ^ - 50\<close> (with an annual income
  of at least \<open>2 ^ - 40\<close>), in the handler's binary64 arithmetic and whatever \<^verbatim>\<open>Math.pow\<close>
  returns:
  \<^item> the route succeeds, and \<open>availableForHousing\<close> is a negative number, not clamped;
  \<^item> provided that, at a non-zero monthly rate, the numerator \<^verbatim>\<open>r * Math.pow(1 + r, n)\<close>
    and the denominator \<^verbatim>\<open>Math.pow(1 + r, n) - 1\<close> of the annuity factor are finite and
    between \<open>2 ^ - 100\<close> and \<open>2 ^ 100\<close>, the maximum loan amount \<open>L\<close> is negative;
  \<^item> provided also that \<open>downPayment \<le> 2 ^ 52 * \<bar>L\<bar>\<close>, the returned \<open>maxHomePrice\<close> is
    below the down payment, \<open>maxHomePrice - downPayment\<close> is \<open>L\<close> up to one rounding
    error, the loan amount that the handler recomputes from it is negative, and so is
    \<open>paymentBreakdown.principalAndInterest\<close>, which enters \<open>monthlyPayment\<close> as it is.
\<close>

theorem negative_affordability:
  fixes A annualIncome monthlyDebts downPayment interestRate loanTerm propertyTaxRate insuranceRate
  defines "res \<equiv> affordability A annualIncome monthlyDebts downPayment interestRate loanTerm
                     propertyTaxRate insuranceRate"
    and "r \<equiv> js_div A (js_div A (Fin interestRate) (Fin 100)) (Fin 12)"
  assumes rb: "rnd A = round_binary64"
    and valid: "valid_affordability annualIncome monthlyDebts downPayment interestRate loanTerm
                  propertyTaxRate insuranceRate"
    and income: "1 / 2 ^ 40 \<le> annualIncome"
    and debts: "36 / 100 * (annualIncome / 12) * (1 + 1 / 2 ^ 50) \<le> monthlyDebts"
    and factor: "r \<noteq> Fin 0 \<longrightarrow>
      enclosed (1 / 2 ^ 100) (js_mul A r (js_pow A (js_add A (Fin 1) r) (loanTerm * 12)))
        (2 ^ 100) \<and>
      enclosed (1 / 2 ^ 100) (js_sub A (js_pow A (js_add A (Fin 1) r) (loanTerm * 12)) (Fin 1))
        (2 ^ 100)"
    and loan: "maxLoanAmount A (availableForHousing A annualIncome monthlyDebts) interestRate
                 loanTerm propertyTaxRate insuranceRate = Fin L"
    and down: "downPayment \<le> 2 ^ 52 * (- L)"
  shows "post_affordability A annualIncome monthlyDebts downPayment interestRate loanTerm
           propertyTaxRate insuranceRate = Ok res \<and>
         (\<exists>a. availableForHousing A annualIncome monthlyDebts = Fin a \<and> a < 0) \<and>
         L < 0 \<and>
         (\<exists>h. maxHomePrice res = Fin h \<and> h < downPayment \<and>
              \<bar>h - downPayment - L\<bar> \<le> (downPayment - L) / 2 ^ 53) \<and>
         (\<exists>l. js_sub A (maxHomePrice res) (Fin downPayment) = Fin l \<and> l < 0) \<and>
         (\<exists>p. principalAndInterest (paymentBreakdown res) = Fin p \<and> p < 0) \<and>
         affordability_result.monthlyPayment res =
           js_add A
             (js_add A (principalAndInterest (paymentBreakdown res))
                (taxes (paymentBreakdown res)))
             (insurance (paymentBreakdown res))"
proof -
  from valid have v: "annualIncome \<le> 2 ^ 53" "monthlyDebts \<le> 2 ^ 53" "0 \<le> downPayment"
    "0 < loanTerm" "real loanTerm \<le> 2 ^ 53"
    "0 \<le> propertyTaxRate" "propertyTaxRate \<le> 2 ^ 53" "0 \<le> insuranceRate"
    "insuranceRate \<le> 2 ^ 53"
  proof -
    from valid have "\<bar>annualIncome\<bar> \<le> 9007199254740991"
      "\<bar>monthlyDebts\<bar> \<le> 9007199254740991" "\<bar>real loanTerm\<bar> \<le> 9007199254740991"
      "\<bar>propertyTaxRate\<bar> \<le> 9007199254740991" "\<bar>insuranceRate\<bar> \<le> 9007199254740991"
      unfolding valid_affordability_def safe_def by blast+
    moreover have "(2 ^ 53 :: real) = 9007199254740992"
      by simp
    ultimately show "annualIncome \<le> 2 ^ 53" "monthlyDebts \<le> 2 ^ 53" "real loanTerm \<le> 2 ^ 53"
      "propertyTaxRate \<le> 2 ^ 53" "insuranceRate \<le> 2 ^ 53"
      by linarith+
    from valid show "0 \<le> downPayment" "0 < loanTerm" "0 \<le> propertyTaxRate"
      "0 \<le> insuranceRate"
      unfolding valid_affordability_def by blast+
  qed
  from valid have ok: "post_affordability A annualIncome monthlyDebts downPayment interestRate
      loanTerm propertyTaxRate insuranceRate = Ok res"
    unfolding post_affordability_def res_def by simp
  from rb income v(1,2) debts
  obtain a c where a: "availableForHousing A annualIncome monthlyDebts = Fin a"
    "a \<le> - (1 / 2 ^ 100)" "- (2 ^ 60) \<le> a"
    by (rule available_below_cap)
  have "(0::real) < 1 / 2 ^ 100"
    by simp
  with a(2) have a0: "a < 0"
    by linarith
  from loan have loan': "maxLoanAmount A (Fin a) interestRate loanTerm propertyTaxRate
      insuranceRate = Fin L"
    unfolding a(1) .
  from rb a(2,3) v(4-9) factor [unfolded r_def] loan'
  have L: "L < 0 \<and> 1 / 2 ^ 306 \<le> \<bar>L\<bar> \<and> \<bar>L\<bar> \<le> 2 ^ 264"
    by (rule maxLoanAmount_negative)
  then have L1: "L < 0" and L2: "1 / 2 ^ 306 \<le> \<bar>L\<bar>" and L3: "\<bar>L\<bar> \<le> 2 ^ 264"
    by blast+
  from L1 L2 L3 v(3) down
  obtain h l where h: "round_binary64 (L + downPayment) = Fin h" "h < downPayment"
    "\<bar>h - downPayment - L\<bar> \<le> (downPayment - L) / 2 ^ 53"
    and l: "round_binary64 (h - downPayment) = Fin l" "l < 0" "1 / 2 ^ 309 \<le> \<bar>l\<bar>"
    "\<bar>l\<bar> \<le> 2 ^ 266"
    by (rule home_price_negative_loan)
  from rb l(2-4) v(4,5) factor
  obtain p where p: "(if r = Fin 0 then js_div A (Fin l) (Fin (real (loanTerm * 12)))
      else annuity A (Fin l) r (loanTerm * 12)) = Fin p" "p < 0"
    by (rule principal_and_interest_negative)
  have hp: "maxHomePrice res = Fin h"
    unfolding res_def affordability_fields(1) loan js_add.simps rb by (rule h(1))
  have la: "js_sub A (maxHomePrice res) (Fin downPayment) = Fin l"
    unfolding hp js_sub.simps rb by (rule l(1))
  have pi: "principalAndInterest (paymentBreakdown res) = Fin p"
    using p(1) la unfolding res_def r_def by (simp only: affordability_fields(2))
  have mp: "affordability_result.monthlyPayment res =
      js_add A
        (js_add A (principalAndInterest (paymentBreakdown res)) (taxes (paymentBreakdown res)))
        (insurance (paymentBreakdown res))"
    unfolding res_def by (rule affordability_fields(3))
  from a(1) a0 have "\<exists>a. availableForHousing A annualIncome monthlyDebts = Fin a \<and> a < 0"
    by blast
  moreover from hp h(2,3) have "\<exists>h. maxHomePrice res = Fin h \<and> h < downPayment \<and>
      \<bar>h - downPayment - L\<bar> \<le> (downPayment - L) / 2 ^ 53"
    by blast
  moreover from la l(2) have "\<exists>l. js_sub A (maxHomePrice res) (Fin downPayment) = Fin l \<and> l < 0"
    by blast
  moreover from pi p(2) have "\<exists>p. principalAndInterest (paymentBreakdown res) = Fin p \<and> p < 0"
    by blast
  ultimately show ?thesis
    using ok L1 mp by (intro conjI)
qed

theorem negative_affordability_witness:
  "rnd binary64 = round_binary64 \<and>
   valid_affordability 60000 2000 20000 75 1 0 0 \<and>
   36 / 100 * (60000 / 12) * (1 + 1 / 2 ^ 50) \<le> (2000 :: real) \<and>
   availableForHousing binary64 60000 2000 = Fin (- 200) \<and>
   maxLoanAmount binary64 (availableForHousing binary64 60000 2000) 75 1 0 0 =
     Fin (- (7274475013529661 / 4398046511104)) \<and>
   post_affordability binary64 60000 2000 20000 75 1 0 0 =
     Ok (affordability binary64 60000 2000 20000 75 1 0 0) \<and>
   (\<exists>h. maxHomePrice (affordability binary64 60000 2000 20000 75 1 0 0) = Fin h \<and>
        h < 20000) \<and>
   (\<exists>l. js_sub binary64 (maxHomePrice (affordability binary64 60000 2000 20000 75 1 0 0))
          (Fin 20000) = Fin l \<and> l < 0) \<and>
   (\<exists>p. principalAndInterest
          (paymentBreakdown (affordability binary64 60000 2000 20000 75 1 0 0)) = Fin p \<and>
        p < 0)"
proof -
  have rb: "rnd binary64 = round_binary64"
    by (simp add: binary64_def)
  have valid: "valid_affordability 60000 2000 20000 75 1 0 0"
    by (simp add: valid_affordability_def safe_def)
  have income: "1 / 2 ^ 40 \<le> (60000 :: real)"
    by simp
  have debts: "36 / 100 * (60000 / 12) * (1 + 1 / 2 ^ 50) \<le> (2000 :: real)"
    by simp
  have factor: "js_div binary64 (js_div binary64 (Fin 75) (Fin 100)) (Fin 12) \<noteq> Fin 0 \<longrightarrow>
      enclosed (1 / 2 ^ 100)
        (js_mul binary64 (js_div binary64 (js_div binary64 (Fin 75) (Fin 100)) (Fin 12))
           (js_pow binary64
              (js_add binary64 (Fin 1)
                 (js_div binary64 (js_div binary64 (Fin 75) (Fin 100)) (Fin 12))) (1 * 12)))
        (2 ^ 100) \<and>
      enclosed (1 / 2 ^ 100)
        (js_sub binary64
           (js_pow binary64
              (js_add binary64 (Fin 1)
                 (js_div binary64 (js_div binary64 (Fin 75) (Fin 100)) (Fin 12))) (1 * 12))
           (Fin 1))
        (2 ^ 100)"
    unfolding b64_factor_75 by (simp add: enclosed_Fin)
  have loan: "maxLoanAmount binary64 (availableForHousing binary64 60000 2000) 75 1 0 0 =
      Fin (- (7274475013529661 / 4398046511104))"
    unfolding b64_available_60000 by (rule b64_loan_60000)
  have down: "(20000 :: real) \<le> 2 ^ 52 * (- (- (7274475013529661 / 4398046511104)))"
    by simp
  from negative_affordability [OF rb valid income debts factor loan down]
    rb valid debts b64_available_60000 loan
  show ?thesis
    by blast
qed

section \<open>Comparing loan options that differ in points only\<close>

lemma compare_option_payment:
  "loan_result.monthlyPayment (compare_option A opt) =
     (if js_div A (js_div A (Fin (interestRate opt)) (Fin 100)) (Fin 12) = Fin 0
      then js_div A (Fin (amount opt)) (Fin (real (term opt * 12)))
      else annuity A (Fin (amount opt))
             (js_div A (js_div A (Fin (interestRate opt)) (Fin 100)) (Fin 12)) (term opt * 12))"
  by (simp add: compare_option_def Let_def loan_option.extend_def)

lemma compare_option_interest:
  "loan_result.totalInterest (compare_option A opt) =
     js_sub A (js_mul A (loan_result.monthlyPayment (compare_option A opt))
                 (Fin (real (term opt * 12)))) (Fin (amount opt))"
  by (simp add: compare_option_def Let_def loan_option.extend_def)

lemma compare_option_cost:
  "totalCost (compare_option A opt) =
     js_add A
       (js_add A
          (js_add A (Fin (amount opt)) (loan_result.totalInterest (compare_option A opt)))
          (pointsCost A opt))
       (Fin (fees opt))"
  by (simp add: compare_option_def Let_def loan_option.extend_def)

lemma compare_nth:
  "compare A [a, b] ! 0 = compare_option A a" "compare A [a, b] ! 1 = compare_option A b"
  by (simp_all add: compare_def)

lemma js_add_Fin:
  assumes "js_add A x y = Fin z"
  obtains a b where "x = Fin a" "y = Fin b" "rnd A (a + b) = Fin z"
  using assms by (cases x; cases y) simp_all

lemma pointsCost_zero:
  "rnd A = round_binary64 \<Longrightarrow> points opt = 0 \<Longrightarrow> pointsCost A opt = Fin 0"
  by (simp add: pointsCost_def)

lemma pointsCost_nonneg:
  assumes rb: "rnd A = round_binary64" and "0 \<le> points opt" and "0 \<le> amount opt"
    and k: "pointsCost A opt = Fin k"
  shows "0 \<le> k"
proof -
  from k obtain c where c: "round_binary64 (points opt / 100) = Fin c"
    and kc: "round_binary64 (c * amount opt) = Fin k"
    unfolding pointsCost_def
    by (cases "round_binary64 (points opt / 100)")
      (simp_all add: rb infinity_def split: if_splits)
  from round_binary64_sign [OF c] assms(2) have "0 \<le> c"
    by simp
  with assms(3) have "0 \<le> c * amount opt"
    by simp
  with round_binary64_sign [OF kc] show ?thesis
    by simp
qed

lemma total_cost_error:
  fixes s k f w t1 :: real
  assumes s: "1 / 2 ^ 1021 \<le> s" and k: "0 \<le> k" and f: "0 \<le> f"
    and w: "round_binary64 (s + k) = Fin w" and t1: "round_binary64 (w + f) = Fin t1"
    and b: "t1 \<le> 2 ^ 1000"
  obtains w0 t0 d where "round_binary64 s = Fin w0" "round_binary64 (w0 + f) = Fin t0"
    "\<bar>t1 - t0 - k\<bar> \<le> t1 / 2 ^ 50"
    "round_binary64 (t1 - t0) = Fin d" "\<bar>d - k\<bar> \<le> t1 / 2 ^ 49"
proof -
  let ?B = "1 / 2 ^ 1022 :: real"
  have B: "(1 / 2 ^ 1021 :: real) = 2 * ?B" "0 < ?B"
    by simp_all
  have T: "(6 :: real) * 2 ^ 1000 \<le> 2 ^ 1023"
    by simp
  from s B have s0: "0 < s" "2 * ?B \<le> s"
    by linarith+
  have n1: "?B \<le> \<bar>s + k\<bar>"
    using s0 k by linarith
  have p1: "0 < s + k"
    using s0 k by linarith
  from rel_bounds [OF round_binary64_rel [OF w n1] p1]
  have w1: "s + k - (s / 9007199254740992 + k / 9007199254740992) \<le> w"
    "w \<le> s + k + (s / 9007199254740992 + k / 9007199254740992)"
    by (simp_all add: add_divide_distrib)
  have wB: "?B \<le> w" "0 < w"
    using w1(1) s0 k B(2) by linarith+
  have n2: "?B \<le> \<bar>w + f\<bar>" and p2: "0 < w + f"
    using wB f by linarith+
  from rel_bounds [OF round_binary64_rel [OF t1 n2] p2]
  have t1b: "w + f - (w / 9007199254740992 + f / 9007199254740992) \<le> t1"
    "t1 \<le> w + f + (w / 9007199254740992 + f / 9007199254740992)"
    by (simp_all add: add_divide_distrib)
  have s_le: "s \<le> 2 * t1" "f \<le> 2 * t1" "k \<le> 2 * t1" "0 < t1"
    using w1(1) t1b(1) s0 k f wB by linarith+
  have "\<bar>s\<bar> \<le> 2 ^ 1023"
    using s_le(1) s0(1) b T by linarith
  then obtain w0 where w0: "round_binary64 s = Fin w0"
    by (rule round_binary64_finite)
  have n3: "?B \<le> \<bar>s\<bar>"
    using s0 B(2) by linarith
  from rel_bounds [OF round_binary64_rel [OF w0 n3] s0(1)]
  have w0b: "s - s / 9007199254740992 \<le> w0" "w0 \<le> s + s / 9007199254740992" .
  have w0B: "?B \<le> w0" "0 < w0" "w0 \<le> 3 * t1"
    using w0b s0 s_le(1) B(2) by linarith+
  have "\<bar>w0 + f\<bar> \<le> 2 ^ 1023"
    using w0B s_le(2) f b T by linarith
  then obtain t0 where t0: "round_binary64 (w0 + f) = Fin t0"
    by (rule round_binary64_finite)
  have n4: "?B \<le> \<bar>w0 + f\<bar>" and p4: "0 < w0 + f"
    using w0B f by linarith+
  from rel_bounds [OF round_binary64_rel [OF t0 n4] p4]
  have t0b: "w0 + f - (w0 / 9007199254740992 + f / 9007199254740992) \<le> t0"
    "t0 \<le> w0 + f + (w0 / 9007199254740992 + f / 9007199254740992)"
    by (simp_all add: add_divide_distrib)
  have e1: "t1 - t0 - k \<le> t1 / 1125899906842624"
    using w1 t1b w0b t0b s0(1) k f by linarith
  have e2: "- (t1 / 1125899906842624) \<le> t1 - t0 - k"
    using w1 t1b w0b t0b s0(1) k f by linarith
  from e1 e2 have "\<bar>t1 - t0 - k\<bar> \<le> t1 / 1125899906842624"
    by linarith
  then have e: "\<bar>t1 - t0 - k\<bar> \<le> t1 / 2 ^ 50"
    by simp
  have t0_le: "0 < t0" "t0 \<le> 2 * t1"
    using t0b(1) w0B f e2 k s_le(4) by linarith+
  have "\<bar>t1 - t0\<bar> \<le> 2 ^ 1023"
    using t0_le s_le(4) b T by linarith
  then obtain d where d: "round_binary64 (t1 - t0) = Fin d"
    by (rule round_binary64_finite)
  have "\<bar>d - (t1 - t0)\<bar> \<le> max (\<bar>t1 - t0\<bar> / 2 ^ 53) (1 / 2 ^ 1075)"
    using d by (rule round_binary64_error)
  moreover have "\<bar>t1 - t0\<bar> / 2 ^ 53 \<le> 3 * t1 / 2 ^ 53"
  proof -
    have "\<bar>t1 - t0\<bar> \<le> 3 * t1"
      using e1 e2 s_le k by linarith
    then show ?thesis
      by (simp add: divide_right_mono)
  qed
  moreover have "1 / 2 ^ 1075 \<le> 3 * t1 / 2 ^ 53"
  proof -
    have "?B \<le> t1"
      using t1b(1) w1(1) s0 k f B(2) by linarith
    then have "?B / 2 ^ 53 \<le> t1 / 2 ^ 53"
      by (simp add: divide_right_mono)
    moreover have "(1 / 2 ^ 1075 :: real) = ?B / 2 ^ 53"
      by simp
    moreover have "t1 / 2 ^ 53 \<le> 3 * t1 / 2 ^ 53"
      using s_le(4) by (simp add: divide_right_mono)
    ultimately show ?thesis
      by linarith
  qed
  ultimately have "\<bar>d - (t1 - t0)\<bar> \<le> 3 * t1 / 2 ^ 53"
    by (simp only: max.boundedI order_trans [of _ "max _ _"])
  then have "\<bar>d - (t1 - t0)\<bar> \<le> 3 * t1 / 9007199254740992"
    by simp
  with e1 e2 s_le(4) have "\<bar>d - k\<bar> \<le> t1 / 562949953421312"
    by linarith
  then have e': "\<bar>d - k\<bar> \<le> t1 / 2 ^ 49"
    by simp
  from w0 t0 e d e' show ?thesis
    by (rule that)
qed

section \<open>binary64: two pairs of loan options\<close>

text \<open>
  The comparison followed in binary64 on two pairs of options that differ in \<open>points\<close>
  only: \<open>99999\<close> at rate \<open>0\<close> over one year with \<open>0\<close> points and with \<open>1\<close> point, and
  \<open>99999\<close> at \<open>75\<close> percent over one year with fees of \<open>1500\<close>, with \<open>0\<close> points and with
  \<open>1\<close> point. \<^verbatim>\<open>1 / 100\<close> and \<^verbatim>\<open>(1 / 100) * 99999\<close> are rounded (the latter to the binary64
  value nearest \<open>999.99\<close>), and so are the sums in \<open>totalCost\<close>.
\<close>

lemma b64_option_99999_0:
  assumes "amount opt = 99999" and "interestRate opt = 0" and "term opt = 1"
  shows "loan_result.monthlyPayment (compare_option binary64 opt) = Fin (33333 / 4)"
    and "loan_result.totalInterest (compare_option binary64 opt) = Fin 0"
    and "js_add binary64 (Fin 99999) (loan_result.totalInterest (compare_option binary64 opt)) =
           Fin 99999"
proof -
  have n: "(1::nat) * 12 = 12" "real (12::nat) = 12"
    by simp_all
  have r: "js_div binary64 (js_div binary64 (Fin 0) (Fin 100)) (Fin 12) = Fin 0"
    by simp
  have d: "js_div binary64 (Fin 99999) (Fin 12) = Fin (33333 / 4)"
    by (simp add: round_binary64_mid b64_defs)
  show mp: "loan_result.monthlyPayment (compare_option binary64 opt) = Fin (33333 / 4)"
    unfolding compare_option_payment assms r n if_P [OF refl] by (rule d)
  have tp: "js_mul binary64 (Fin (33333 / 4)) (Fin 12) = Fin 99999"
    by (simp add: round_binary64_mid b64_defs)
  have ti: "js_sub binary64 (Fin 99999) (Fin 99999) = Fin 0"
    by simp
  show i: "loan_result.totalInterest (compare_option binary64 opt) = Fin 0"
    unfolding compare_option_interest mp assms n tp by (rule ti)
  show "js_add binary64 (Fin 99999) (loan_result.totalInterest (compare_option binary64 opt)) =
      Fin 99999"
    unfolding i by (simp add: round_binary64_mid b64_defs)
qed

lemma b64_option_99999_75:
  assumes "amount opt = 99999" and "interestRate opt = 75" and "term opt = 1"
  shows "loan_result.monthlyPayment (compare_option binary64 opt) = Fin (6647428044542029 / 549755813888)"
    and "loan_result.totalInterest (compare_option binary64 opt) = Fin (774815778172445 / 17179869184)"
    and "js_add binary64 (Fin 99999) (loan_result.totalInterest (compare_option binary64 opt)) =
           Fin (2492785516703261 / 17179869184)"
proof -
  have n: "(1::nat) * 12 = 12" "real (12::nat) = 12"
    by simp_all
  have r: "js_div binary64 (js_div binary64 (Fin 75) (Fin 100)) (Fin 12) = Fin (1 / 16)"
    by (simp add: round_binary64_mid b64_defs)
  have nz: "Fin (1 / 16) \<noteq> Fin 0"
    by simp
  have q: "js_add binary64 (Fin 1) (Fin (1 / 16)) = Fin (17 / 16)"
    by (simp add: round_binary64_mid b64_defs)
  have "(17 / 16 :: real) ^ 12 = 582622237229761 / 281474976710656"
    by (simp add: power_divide)
  moreover have "round_binary64 (582622237229761 / 281474976710656) = Fin (582622237229761 / 281474976710656)"
    by (simp add: round_binary64_mid b64_defs)
  ultimately have pw: "js_pow binary64 (Fin (17 / 16)) 12 = Fin (582622237229761 / 281474976710656)"
    by (simp only: js_pow_Fin pwr_binary64)
  have rp: "js_mul binary64 (Fin (1 / 16)) (Fin (582622237229761 / 281474976710656)) = Fin (582622237229761 / 4503599627370496)"
    by (simp add: round_binary64_mid b64_defs)
  have num: "js_mul binary64 (Fin 99999) (Fin (582622237229761 / 4503599627370496)) = Fin (3556008367965019 / 274877906944)"
    by (simp add: round_binary64_mid b64_defs)
  have den: "js_sub binary64 (Fin (582622237229761 / 281474976710656)) (Fin 1) = Fin (301147260519105 / 281474976710656)"
    by (simp add: round_binary64_mid b64_defs)
  have quot: "js_div binary64 (Fin (3556008367965019 / 274877906944)) (Fin (301147260519105 / 281474976710656)) = Fin (6647428044542029 / 549755813888)"
    by (simp add: round_binary64_mid b64_defs)
  have ann: "annuity binary64 (Fin 99999) (Fin (1 / 16)) 12 = Fin (6647428044542029 / 549755813888)"
    unfolding annuity_def q pw rp num den quot ..
  show mp: "loan_result.monthlyPayment (compare_option binary64 opt) = Fin (6647428044542029 / 549755813888)"
    unfolding compare_option_payment assms r n if_not_P [OF nz] by (rule ann)
  have tp: "js_mul binary64 (Fin (6647428044542029 / 549755813888)) (Fin 12) = Fin (2492785516703261 / 17179869184)"
    by (simp add: round_binary64_mid b64_defs)
  have ti: "js_sub binary64 (Fin (2492785516703261 / 17179869184)) (Fin 99999) = Fin (774815778172445 / 17179869184)"
    by (simp add: round_binary64_mid b64_defs)
  show i: "loan_result.totalInterest (compare_option binary64 opt) = Fin (774815778172445 / 17179869184)"
    unfolding compare_option_interest mp assms n tp by (rule ti)
  show "js_add binary64 (Fin 99999) (loan_result.totalInterest (compare_option binary64 opt)) =
      Fin (2492785516703261 / 17179869184)"
    unfolding i by (simp add: round_binary64_mid b64_defs)
qed

lemma b64_cost_0_0:
  "pointsCost binary64 \<lparr>amount = 99999, interestRate = 0, term = 1, type = ''fixed'', points = 0, fees = 0\<rparr> = Fin 0"
  "totalCost (compare_option binary64 \<lparr>amount = 99999, interestRate = 0, term = 1, type = ''fixed'', points = 0, fees = 0\<rparr>) = Fin 99999"
proof -
  let ?o = "\<lparr>amount = 99999, interestRate = 0, term = 1, type = ''fixed'', points = 0, fees = 0\<rparr>"
  have s: "js_add binary64 (Fin 99999) (loan_result.totalInterest (compare_option binary64 ?o)) =
      Fin 99999"
    by (rule b64_option_99999_0(3)) simp_all
  show k: "pointsCost binary64 ?o = Fin 0"
    by (simp add: pointsCost_def)
  have w: "js_add binary64 (Fin 99999) (Fin 0) = Fin 99999"
    by (simp add: round_binary64_mid b64_defs)
  have t: "js_add binary64 (Fin 99999) (Fin 0) = Fin 99999"
    by (simp add: round_binary64_mid b64_defs)
  have f: "amount ?o = 99999" "fees ?o = 0"
    by simp_all
  show "totalCost (compare_option binary64 ?o) = Fin 99999"
    by (simp only: compare_option_cost f s k w t)
qed

lemma b64_cost_0_1:
  "pointsCost binary64 \<lparr>amount = 99999, interestRate = 0, term = 1, type = ''fixed'', points = 1, fees = 0\<rparr> = Fin (4398002530638889 / 4398046511104)"
  "totalCost (compare_option binary64 \<lparr>amount = 99999, interestRate = 0, term = 1, type = ''fixed'', points = 1, fees = 0\<rparr>) = Fin (6940597743664497 / 68719476736)"
proof -
  let ?o = "\<lparr>amount = 99999, interestRate = 0, term = 1, type = ''fixed'', points = 1, fees = 0\<rparr>"
  have s: "js_add binary64 (Fin 99999) (loan_result.totalInterest (compare_option binary64 ?o)) =
      Fin 99999"
    by (rule b64_option_99999_0(3)) simp_all
  have c: "js_div binary64 (Fin 1) (Fin 100) = Fin (5764607523034235 / 576460752303423488)"
    by (simp add: round_binary64_mid b64_defs)
  have m: "js_mul binary64 (Fin (5764607523034235 / 576460752303423488)) (Fin 99999) = Fin (4398002530638889 / 4398046511104)"
    by (simp add: round_binary64_mid b64_defs)
  have f: "points ?o = 1" "amount ?o = 99999"
    by simp_all
  show k: "pointsCost binary64 ?o = Fin (4398002530638889 / 4398046511104)"
    unfolding pointsCost_def f c by (rule m)
  have w: "js_add binary64 (Fin 99999) (Fin (4398002530638889 / 4398046511104)) = Fin (6940597743664497 / 68719476736)"
    by (simp add: round_binary64_mid b64_defs)
  have t: "js_add binary64 (Fin (6940597743664497 / 68719476736)) (Fin 0) = Fin (6940597743664497 / 68719476736)"
    by (simp add: round_binary64_mid b64_defs)
  have f: "amount ?o = 99999" "fees ?o = 0"
    by simp_all
  show "totalCost (compare_option binary64 ?o) = Fin (6940597743664497 / 68719476736)"
    by (simp only: compare_option_cost f s k w t)
qed

lemma b64_cost_75_0:
  "pointsCost binary64 \<lparr>amount = 99999, interestRate = 75, term = 1, type = ''fixed'', points = 0, fees = 1500\<rparr> = Fin 0"
  "totalCost (compare_option binary64 \<lparr>amount = 99999, interestRate = 75, term = 1, type = ''fixed'', points = 0, fees = 1500\<rparr>) = Fin (2518555320479261 / 17179869184)"
proof -
  let ?o = "\<lparr>amount = 99999, interestRate = 75, term = 1, type = ''fixed'', points = 0, fees = 1500\<rparr>"
  have s: "js_add binary64 (Fin 99999) (loan_result.totalInterest (compare_option binary64 ?o)) =
      Fin (2492785516703261 / 17179869184)"
    by (rule b64_option_99999_75(3)) simp_all
  show k: "pointsCost binary64 ?o = Fin 0"
    by (simp add: pointsCost_def)
  have w: "js_add binary64 (Fin (2492785516703261 / 17179869184)) (Fin 0) = Fin (2492785516703261 / 17179869184)"
    by (simp add: round_binary64_mid b64_defs)
  have t: "js_add binary64 (Fin (2492785516703261 / 17179869184)) (Fin 1500) = Fin (2518555320479261 / 17179869184)"
    by (simp add: round_binary64_mid b64_defs)
  have f: "amount ?o = 99999" "fees ?o = 1500"
    by simp_all
  show "totalCost (compare_option binary64 ?o) = Fin (2518555320479261 / 17179869184)"
    by (simp only: compare_option_cost f s k w t)
qed

lemma b64_cost_75_1:
  "pointsCost binary64 \<lparr>amount = 99999, interestRate = 75, term = 1, type = ''fixed'', points = 1, fees = 1500\<rparr> = Fin (4398002530638889 / 4398046511104)"
  "totalCost (compare_option binary64 \<lparr>amount = 99999, interestRate = 75, term = 1, type = ''fixed'', points = 1, fees = 1500\<rparr>) = Fin (2535735017864569 / 17179869184)"
proof -
  let ?o = "\<lparr>amount = 99999, interestRate = 75, term = 1, type = ''fixed'', points = 1, fees = 1500\<rparr>"
  have s: "js_add binary64 (Fin 99999) (loan_result.totalInterest (compare_option binary64 ?o)) =
      Fin (2492785516703261 / 17179869184)"
    by (rule b64_option_99999_75(3)) simp_all
  have c: "js_div binary64 (Fin 1) (Fin 100) = Fin (5764607523034235 / 576460752303423488)"
    by (simp add: round_binary64_mid b64_defs)
  have m: "js_mul binary64 (Fin (5764607523034235 / 576460752303423488)) (Fin 99999) = Fin (4398002530638889 / 4398046511104)"
    by (simp add: round_binary64_mid b64_defs)
  have f: "points ?o = 1" "amount ?o = 99999"
    by simp_all
  show k: "pointsCost binary64 ?o = Fin (4398002530638889 / 4398046511104)"
    unfolding pointsCost_def f c by (rule m)
  have w: "js_add binary64 (Fin (2492785516703261 / 17179869184)) (Fin (4398002530638889 / 4398046511104)) = Fin (2509965214088569 / 17179869184)"
    by (simp add: round_binary64_mid b64_defs)
  have t: "js_add binary64 (Fin (2509965214088569 / 17179869184)) (Fin 1500) = Fin (2535735017864569 / 17179869184)"
    by (simp add: round_binary64_mid b64_defs)
  have f: "amount ?o = 99999" "fees ?o = 1500"
    by simp_all
  show "totalCost (compare_option binary64 ?o) = Fin (2535735017864569 / 17179869184)"
    by (simp only: compare_option_cost f s k w t)
qed

section \<open>Options that differ in points only\<close>

text \<open>
  Claim C8 says that the total cost with \<open>p\<close> points exceeds the total cost with no
  points by exactly \<open>(p / 100) * amount\<close>. The handler computes
  \<^verbatim>\<open>amount + totalInterest + pointsCost + fees\<close> in binary64, and each sum is rounded. For
  the two options below (\<open>99999\<close> at rate \<open>0\<close> over one year, \<open>0\<close> points and \<open>1\<close> point)
  the totals are \<open>99999\<close> and \<open>6940597743664497 / 2 ^ 36\<close>; their difference, which
  binary64 subtraction returns without error, is \<open>68718789541233 / 2 ^ 36\<close>, while the
  handler's \<open>pointsCost\<close> \<^verbatim>\<open>(1 / 100) * 99999\<close> is \<open>4398002530638889 / 2 ^ 42\<close>, the
  binary64 value nearest \<open>999.99\<close>. The difference is neither that value nor \<open>999.99\<close>.
\<close>

theorem points_cost_counterexample:
  "valid_comparison
     [\<lparr>amount = 99999, interestRate = 0, term = 1, type = ''fixed'', points = 0, fees = 0\<rparr>,
      \<lparr>amount = 99999, interestRate = 0, term = 1, type = ''fixed'', points = 1, fees = 0\<rparr>] \<and>
   totalCost (compare binary64
     [\<lparr>amount = 99999, interestRate = 0, term = 1, type = ''fixed'', points = 0, fees = 0\<rparr>,
      \<lparr>amount = 99999, interestRate = 0, term = 1, type = ''fixed'', points = 1, fees = 0\<rparr>] ! 0) = Fin 99999 \<and>
   totalCost (compare binary64
     [\<lparr>amount = 99999, interestRate = 0, term = 1, type = ''fixed'', points = 0, fees = 0\<rparr>,
      \<lparr>amount = 99999, interestRate = 0, term = 1, type = ''fixed'', points = 1, fees = 0\<rparr>] ! 1) = Fin (6940597743664497 / 68719476736) \<and>
   pointsCost binary64
     \<lparr>amount = 99999, interestRate = 0, term = 1, type = ''fixed'', points = 1, fees = 0\<rparr> =
     Fin (4398002530638889 / 4398046511104) \<and>
   js_sub binary64
     (totalCost (compare binary64
        [\<lparr>amount = 99999, interestRate = 0, term = 1, type = ''fixed'', points = 0, fees = 0\<rparr>,
      \<lparr>amount = 99999, interestRate = 0, term = 1, type = ''fixed'', points = 1, fees = 0\<rparr>] ! 1))
     (totalCost (compare binary64
        [\<lparr>amount = 99999, interestRate = 0, term = 1, type = ''fixed'', points = 0, fees = 0\<rparr>,
      \<lparr>amount = 99999, interestRate = 0, term = 1, type = ''fixed'', points = 1, fees = 0\<rparr>] ! 0)) = Fin (68718789541233 / 68719476736) \<and>
   (68718789541233 / 68719476736 :: real) \<noteq> 4398002530638889 / 4398046511104 \<and>
   (6940597743664497 / 68719476736 - 99999 :: real) \<noteq> 4398002530638889 / 4398046511104 \<and>
   (6940597743664497 / 68719476736 - 99999 :: real) \<noteq> 1 / 100 * 99999"
proof -
  let ?o0 = "\<lparr>amount = 99999, interestRate = 0, term = 1, type = ''fixed'', points = 0, fees = 0\<rparr>"
  let ?o1 = "\<lparr>amount = 99999, interestRate = 0, term = 1, type = ''fixed'', points = 1, fees = 0\<rparr>"
  have v: "valid_comparison [?o0, ?o1]"
    by (simp add: valid_comparison_def valid_option_def safe_def)
  have c0: "totalCost (compare binary64 [?o0, ?o1] ! 0) = Fin 99999"
    unfolding compare_nth by (rule b64_cost_0_0)
  have c1: "totalCost (compare binary64 [?o0, ?o1] ! 1) = Fin (6940597743664497 / 68719476736)"
    unfolding compare_nth by (rule b64_cost_0_1)
  have d: "js_sub binary64 (totalCost (compare binary64 [?o0, ?o1] ! 1))
      (totalCost (compare binary64 [?o0, ?o1] ! 0)) = Fin (68718789541233 / 68719476736)"
    unfolding c0 c1 by (simp add: round_binary64_mid b64_defs)
  have n: "(68718789541233 / 68719476736 :: real) \<noteq> 4398002530638889 / 4398046511104"
    "(6940597743664497 / 68719476736 - 99999 :: real) \<noteq> 4398002530638889 / 4398046511104"
    "(6940597743664497 / 68719476736 - 99999 :: real) \<noteq> 1 / 100 * 99999"
    by simp_all
  from v c0 c1 b64_cost_0_1(1) d n show ?thesis
    by (intro conjI)
qed

text \<open>
  Claim C8, amended. Two options that differ only in \<open>points\<close> (\<open>0\<close> and \<open>p > 0\<close>) get
  the same \<open>monthlyPayment\<close> and the same \<open>totalInterest\<close>, in every arithmetic. In the
  handler's binary64 arithmetic, whatever \<^verbatim>\<open>Math.pow\<close> returns, if the amount and the
  fees are not negative, \<^verbatim>\<open>amount + totalInterest\<close> is a finite number \<open>s \<ge> 2 ^ - 1021\<close>
  and the total cost \<open>t\<close> of the option with points is a finite number \<open>\<le> 2 ^ 1000\<close>, then
  the handler's \<open>pointsCost\<close> \<^verbatim>\<open>(p / 100) * amount\<close> is a finite number \<open>k \<ge> 0\<close>, the total
  cost \<open>t0\<close> of the option without points is finite, and \<open>t\<close> exceeds \<open>t0\<close> by \<open>k\<close> up to
  rounding: \<open>\<bar>t - t0 - k\<bar> \<le> t / 2 ^ 50\<close>, and the difference computed in binary64 is
  within \<open>t / 2 ^ 49\<close> of \<open>k\<close>.
\<close>

theorem points_cost:
  assumes "points opt = 0" and "0 < p"
  shows "loan_result.monthlyPayment (compare A [opt, opt\<lparr>points := p\<rparr>] ! 1) =
           loan_result.monthlyPayment (compare A [opt, opt\<lparr>points := p\<rparr>] ! 0) \<and>
         loan_result.totalInterest (compare A [opt, opt\<lparr>points := p\<rparr>] ! 1) =
           loan_result.totalInterest (compare A [opt, opt\<lparr>points := p\<rparr>] ! 0) \<and>
         (rnd A = round_binary64 \<and> 0 \<le> amount opt \<and> 0 \<le> fees opt \<and>
          js_add A (Fin (amount opt))
            (loan_result.totalInterest (compare A [opt, opt\<lparr>points := p\<rparr>] ! 0)) = Fin s \<and>
          1 / 2 ^ 1021 \<le> s \<and>
          totalCost (compare A [opt, opt\<lparr>points := p\<rparr>] ! 1) = Fin t \<and> t \<le> 2 ^ 1000 \<longrightarrow>
          (\<exists>k t0. pointsCost A (opt\<lparr>points := p\<rparr>) = Fin k \<and> 0 \<le> k \<and>
             totalCost (compare A [opt, opt\<lparr>points := p\<rparr>] ! 0) = Fin t0 \<and>
             \<bar>t - t0 - k\<bar> \<le> t / 2 ^ 50 \<and>
             (\<exists>d. js_sub A (totalCost (compare A [opt, opt\<lparr>points := p\<rparr>] ! 1))
                    (totalCost (compare A [opt, opt\<lparr>points := p\<rparr>] ! 0)) = Fin d \<and>
                  \<bar>d - k\<bar> \<le> t / 2 ^ 49)))"
proof -
  let ?o = "opt\<lparr>points := p\<rparr>"
  have mp: "loan_result.monthlyPayment (compare_option A ?o) =
            loan_result.monthlyPayment (compare_option A opt)"
    by (simp add: compare_option_payment)
  have ti: "loan_result.totalInterest (compare_option A ?o) =
            loan_result.totalInterest (compare_option A opt)"
    by (simp add: compare_option_interest mp)
  have "\<exists>k t0. pointsCost A ?o = Fin k \<and> 0 \<le> k \<and>
          totalCost (compare_option A opt) = Fin t0 \<and> \<bar>t - t0 - k\<bar> \<le> t / 2 ^ 50 \<and>
          (\<exists>d. js_sub A (totalCost (compare_option A ?o)) (totalCost (compare_option A opt)) =
                 Fin d \<and> \<bar>d - k\<bar> \<le> t / 2 ^ 49)"
    if rb: "rnd A = round_binary64" and a: "0 \<le> amount opt" and f: "0 \<le> fees opt"
      and s: "js_add A (Fin (amount opt)) (loan_result.totalInterest (compare_option A opt)) =
        Fin s"
      and s1: "1 / 2 ^ 1021 \<le> s"
      and t: "totalCost (compare_option A ?o) = Fin t" and t1: "t \<le> 2 ^ 1000"
  proof -
    from t have "js_add A (js_add A (Fin s) (pointsCost A ?o)) (Fin (fees opt)) = Fin t"
      by (simp add: compare_option_cost ti s)
    then obtain w where w: "js_add A (Fin s) (pointsCost A ?o) = Fin w"
      and tw: "round_binary64 (w + fees opt) = Fin t"
      by (rule js_add_Fin) (simp add: rb)
    from w obtain k where k: "pointsCost A ?o = Fin k"
      and wk: "round_binary64 (s + k) = Fin w"
      by (rule js_add_Fin) (simp add: rb)
    have k0: "0 \<le> k"
      using rb _ _ k by (rule pointsCost_nonneg) (use assms(2) a in simp_all)
    from s1 k0 f wk tw t1
    obtain w0 t0 d where w0: "round_binary64 s = Fin w0"
      and t0: "round_binary64 (w0 + fees opt) = Fin t0"
      and e: "\<bar>t - t0 - k\<bar> \<le> t / 2 ^ 50"
      and d: "round_binary64 (t - t0) = Fin d" and e': "\<bar>d - k\<bar> \<le> t / 2 ^ 49"
      by (rule total_cost_error)
    have c0: "totalCost (compare_option A opt) = Fin t0"
      by (simp add: compare_option_cost s pointsCost_zero [OF rb assms(1)] rb w0 t0)
    have "js_sub A (totalCost (compare_option A ?o)) (totalCost (compare_option A opt)) = Fin d"
      by (simp add: t c0 rb d)
    with k k0 c0 e e' show ?thesis
      by blast
  qed
  note c = this
  show ?thesis
    unfolding compare_nth
  proof (intro conjI impI)
    show "loan_result.monthlyPayment (compare_option A ?o) =
        loan_result.monthlyPayment (compare_option A opt)"
      by (rule mp)
    show "loan_result.totalInterest (compare_option A ?o) =
        loan_result.totalInterest (compare_option A opt)"
      by (rule ti)
    assume "rnd A = round_binary64 \<and> 0 \<le> amount opt \<and> 0 \<le> fees opt \<and>
      js_add A (Fin (amount opt)) (loan_result.totalInterest (compare_option A opt)) = Fin s \<and>
      1 / 2 ^ 1021 \<le> s \<and> totalCost (compare_option A ?o) = Fin t \<and> t \<le> 2 ^ 1000"
    then have "rnd A = round_binary64" "0 \<le> amount opt" "0 \<le> fees opt"
      "js_add A (Fin (amount opt)) (loan_result.totalInterest (compare_option A opt)) = Fin s"
      "1 / 2 ^ 1021 \<le> s" "totalCost (compare_option A ?o) = Fin t" "t \<le> 2 ^ 1000"
      by blast+
    then show "\<exists>k t0. pointsCost A ?o = Fin k \<and> 0 \<le> k \<and>
        totalCost (compare_option A opt) = Fin t0 \<and> \<bar>t - t0 - k\<bar> \<le> t / 2 ^ 50 \<and>
        (\<exists>d. js_sub A (totalCost (compare_option A ?o)) (totalCost (compare_option A opt)) =
               Fin d \<and> \<bar>d - k\<bar> \<le> t / 2 ^ 49)"
      by (rule c)
  qed
qed

theorem points_cost_witness:
  "points \<lparr>amount = 99999, interestRate = 75, term = 1, type = ''fixed'', points = 0, fees = 1500\<rparr> = 0 \<and>
   (0::real) < 1 \<and>
   rnd binary64 = round_binary64 \<and>
   js_add binary64 (Fin (amount \<lparr>amount = 99999, interestRate = 75, term = 1, type = ''fixed'', points = 0, fees = 1500\<rparr>))
     (loan_result.totalInterest (compare binary64
        [\<lparr>amount = 99999, interestRate = 75, term = 1, type = ''fixed'', points = 0, fees = 1500\<rparr>,
      \<lparr>amount = 99999, interestRate = 75, term = 1, type = ''fixed'', points = 0, fees = 1500\<rparr>\<lparr>points := 1\<rparr>] ! 0)) =
     Fin (2492785516703261 / 17179869184) \<and>
   totalCost (compare binary64
     [\<lparr>amount = 99999, interestRate = 75, term = 1, type = ''fixed'', points = 0, fees = 1500\<rparr>,
      \<lparr>amount = 99999, interestRate = 75, term = 1, type = ''fixed'', points = 0, fees = 1500\<rparr>\<lparr>points := 1\<rparr>] ! 1) =
     Fin (2535735017864569 / 17179869184) \<and>
   (\<exists>k t0. pointsCost binary64
             (\<lparr>amount = 99999, interestRate = 75, term = 1, type = ''fixed'', points = 0, fees = 1500\<rparr>\<lparr>points := 1\<rparr>) = Fin k \<and> 0 \<le> k \<and>
      totalCost (compare binary64
        [\<lparr>amount = 99999, interestRate = 75, term = 1, type = ''fixed'', points = 0, fees = 1500\<rparr>,
      \<lparr>amount = 99999, interestRate = 75, term = 1, type = ''fixed'', points = 0, fees = 1500\<rparr>\<lparr>points := 1\<rparr>] ! 0) = Fin t0 \<and>
      \<bar>2535735017864569 / 17179869184 - t0 - k\<bar> \<le> 2535735017864569 / 17179869184 / 2 ^ 50) \<and>
   pointsCost binary64
     (\<lparr>amount = 99999, interestRate = 75, term = 1, type = ''fixed'', points = 0, fees = 1500\<rparr>\<lparr>points := 1\<rparr>) =
     Fin (4398002530638889 / 4398046511104) \<and>
   totalCost (compare binary64
     [\<lparr>amount = 99999, interestRate = 75, term = 1, type = ''fixed'', points = 0, fees = 1500\<rparr>,
      \<lparr>amount = 99999, interestRate = 75, term = 1, type = ''fixed'', points = 0, fees = 1500\<rparr>\<lparr>points := 1\<rparr>] ! 0) =
     Fin (2518555320479261 / 17179869184) \<and>
   (2535735017864569 / 17179869184 - 2518555320479261 / 17179869184 - 4398002530638889 / 4398046511104 :: real) \<noteq> 0"
proof -
  let ?o = "\<lparr>amount = 99999, interestRate = 75, term = 1, type = ''fixed'', points = 0, fees = 1500\<rparr>"
  have p0: "points ?o = 0"
    by simp
  have pp: "(0::real) < 1"
    by simp
  have u: "?o\<lparr>points := 1\<rparr> = \<lparr>amount = 99999, interestRate = 75, term = 1, type = ''fixed'', points = 1, fees = 1500\<rparr>"
    by simp
  have rb: "rnd binary64 = round_binary64"
    by (simp add: binary64_def)
  have s: "js_add binary64 (Fin (amount ?o))
      (loan_result.totalInterest (compare binary64 [?o, ?o\<lparr>points := 1\<rparr>] ! 0)) =
      Fin (2492785516703261 / 17179869184)"
    unfolding compare_nth by (simp add: b64_option_99999_75(2)) (simp add: round_binary64_mid b64_defs)
  have t: "totalCost (compare binary64 [?o, ?o\<lparr>points := 1\<rparr>] ! 1) = Fin (2535735017864569 / 17179869184)"
    unfolding compare_nth u by (rule b64_cost_75_1)
  have h: "0 \<le> amount ?o" "0 \<le> fees ?o" "1 / 2 ^ 1021 \<le> (2492785516703261 / 17179869184 :: real)"
    "(2535735017864569 / 17179869184 :: real) \<le> 2 ^ 1000"
    by simp_all
  from points_cost [OF p0 pp, of binary64 "2492785516703261 / 17179869184" "2535735017864569 / 17179869184"] rb s t h
  have "\<exists>k t0. pointsCost binary64 (?o\<lparr>points := 1\<rparr>) = Fin k \<and> 0 \<le> k \<and>
      totalCost (compare binary64 [?o, ?o\<lparr>points := 1\<rparr>] ! 0) = Fin t0 \<and>
      \<bar>2535735017864569 / 17179869184 - t0 - k\<bar> \<le> 2535735017864569 / 17179869184 / 2 ^ 50"
    by blast
  moreover have "pointsCost binary64 (?o\<lparr>points := 1\<rparr>) = Fin (4398002530638889 / 4398046511104)"
    unfolding u by (rule b64_cost_75_1)
  moreover have "totalCost (compare binary64 [?o, ?o\<lparr>points := 1\<rparr>] ! 0) =
      Fin (2518555320479261 / 17179869184)"
    unfolding compare_nth by (rule b64_cost_75_0)
  moreover have "(2535735017864569 / 17179869184 - 2518555320479261 / 17179869184 - 4398002530638889 / 4398046511104 :: real) \<noteq> 0"
    by simp
  ultimately show ?thesis
    using p0 pp rb s t by (intro conjI)
qed

section \<open>Arithmetic with a bounded relative error\<close>

text \<open>
  Bounds propagate through the handler's operations: from enclosures of the operands
  of an operation of an accurate arithmetic, an enclosure of its result. All quantities
  are positive here, between \<open>2 ^ - 20\<close> and \<open>2 ^ 40\<close>, so every exact result is
  in the normal range and every computed result is finite.
\<close>

lemma accurate_rnd:
  assumes "accurate A d" "0 \<le> d" "d \<le> 1" "1 / 2 ^ 20 \<le> l" "l \<le> x" "x \<le> u" "u \<le> 2 ^ 40"
  shows "enclosed (l * (1 - d)) (rnd A x) (u * (1 + d))"
proof -
  have "(0::real) < 1 / 2 ^ 20" by simp
  with assms have x: "0 \<le> x" and l: "0 \<le> l" by linarith+
  have "(1 / 2 ^ 1022 :: real) \<le> 1 / 2 ^ 20" "(2 ^ 40 :: real) \<le> 2 ^ 1023"
    by simp_all
  with assms x have "normal x"
    unfolding normal_def by linarith
  with assms(1) obtain y where y: "rnd A x = Fin y" "\<bar>y - x\<bar> \<le> d * \<bar>x\<bar>"
    unfolding accurate_def by blast
  with x have b: "x * (1 - d) \<le> y" "y \<le> x * (1 + d)"
    by (simp_all add: abs_le_iff algebra_simps)
  have "l * (1 - d) \<le> x * (1 - d)"
    using assms by (intro mult_right_mono) simp_all
  moreover have "x * (1 + d) \<le> u * (1 + d)"
    using assms by (intro mult_right_mono) simp_all
  ultimately have "l * (1 - d) \<le> y \<and> y \<le> u * (1 + d)"
    using b by linarith
  with y(1) show ?thesis
    unfolding enclosed_def by blast
qed

lemma enclosed_weaken: "enclosed l x u \<Longrightarrow> L \<le> l \<Longrightarrow> u \<le> U \<Longrightarrow> enclosed L x U"
  unfolding enclosed_def by force

lemma const_interval: "enclosed c (Fin c) c"
  by (simp add: enclosed_def)

lemma step_rnd:
  assumes "accurate A d" and "0 \<le> d \<and> d \<le> 1"
    and "al \<le> x \<and> x \<le> au" and "1 / 2 ^ 20 \<le> al" and "au \<le> 2 ^ 40"
    and "L \<le> al * (1 - d)" and "au * (1 + d) \<le> U"
  shows "enclosed L (rnd A x) U"
proof -
  from assms have "enclosed (al * (1 - d)) (rnd A x) (au * (1 + d))"
    by (intro accurate_rnd) simp_all
  then show ?thesis
    using assms(6,7) by (rule enclosed_weaken)
qed

lemma step_mul:
  assumes "accurate A d" and "0 \<le> d \<and> d \<le> 1"
    and "enclosed al a au" and "enclosed bl b bu"
    and "0 \<le> al" and "0 \<le> bl" and "1 / 2 ^ 20 \<le> al * bl" and "au * bu \<le> 2 ^ 40"
    and "L \<le> al * bl * (1 - d)" and "au * bu * (1 + d) \<le> U"
  shows "enclosed L (js_mul A a b) U"
proof -
  from assms(3,4) obtain x y where x: "a = Fin x" "al \<le> x" "x \<le> au"
    and y: "b = Fin y" "bl \<le> y" "y \<le> bu"
    unfolding enclosed_def by blast
  have "al * bl \<le> x * y" "x * y \<le> au * bu"
    using assms(5,6) x y by (auto intro!: mult_mono)
  with assms have "enclosed L (rnd A (x * y)) U"
    by (intro step_rnd [of A d "al * bl" _ "au * bu"]) simp_all
  then show ?thesis
    by (simp add: x y)
qed

lemma step_div:
  assumes "accurate A d" and "0 \<le> d \<and> d \<le> 1"
    and "enclosed al a au" and "enclosed bl b bu"
    and "0 \<le> al" and "0 < bl" and "1 / 2 ^ 20 \<le> al / bu" and "au / bl \<le> 2 ^ 40"
    and "L \<le> al / bu * (1 - d)" and "au / bl * (1 + d) \<le> U"
  shows "enclosed L (js_div A a b) U"
proof -
  from assms(3,4) obtain x y where x: "a = Fin x" "al \<le> x" "x \<le> au"
    and y: "b = Fin y" "bl \<le> y" "y \<le> bu"
    unfolding enclosed_def by blast
  have "al / bu \<le> x / y" "x / y \<le> au / bl"
    using assms(5,6) x y by (auto intro!: frac_le)
  with assms have "enclosed L (rnd A (x / y)) U"
    by (intro step_rnd [of A d "al / bu" _ "au / bl"]) simp_all
  moreover have "y \<noteq> 0"
    using assms(6) y by simp
  ultimately show ?thesis
    by (simp add: x y)
qed

lemma step_add:
  assumes "accurate A d" and "0 \<le> d \<and> d \<le> 1"
    and "enclosed al a au" and "enclosed bl b bu"
    and "1 / 2 ^ 20 \<le> al + bl" and "au + bu \<le> 2 ^ 40"
    and "L \<le> (al + bl) * (1 - d)" and "(au + bu) * (1 + d) \<le> U"
  shows "enclosed L (js_add A a b) U"
proof -
  from assms(3,4) obtain x y where x: "a = Fin x" "al \<le> x" "x \<le> au"
    and y: "b = Fin y" "bl \<le> y" "y \<le> bu"
    unfolding enclosed_def by blast
  have "al + bl \<le> x + y" "x + y \<le> au + bu"
    using x y by simp_all
  with assms have "enclosed L (rnd A (x + y)) U"
    by (intro step_rnd [of A d "al + bl" _ "au + bu"]) simp_all
  then show ?thesis
    by (simp add: x y)
qed

lemma step_sub:
  assumes "accurate A d" and "0 \<le> d \<and> d \<le> 1"
    and "enclosed al a au" and "enclosed bl b bu"
    and "1 / 2 ^ 20 \<le> al - bu" and "au - bl \<le> 2 ^ 40"
    and "L \<le> (al - bu) * (1 - d)" and "(au - bl) * (1 + d) \<le> U"
  shows "enclosed L (js_sub A a b) U"
proof -
  from assms(3,4) obtain x y where x: "a = Fin x" "al \<le> x" "x \<le> au"
    and y: "b = Fin y" "bl \<le> y" "y \<le> bu"
    unfolding enclosed_def by blast
  have "al - bu \<le> x - y" "x - y \<le> au - bl"
    using x y by simp_all
  with assms have "enclosed L (rnd A (x - y)) U"
    by (intro step_rnd [of A d "al - bu" _ "au - bl"]) simp_all
  then show ?thesis
    by (simp add: x y)
qed

lemma step_pow:
  assumes "accurate A d" and "0 \<le> d \<and> d \<le> 1"
    and "enclosed al a au" and "0 \<le> al" and "0 < n" and "PL \<le> al ^ n" and "au ^ n \<le> PU"
    and "1 / 2 ^ 20 \<le> PL" and "PU \<le> 2 ^ 40"
    and "L \<le> PL * (1 - d)" and "PU * (1 + d) \<le> U"
  shows "enclosed L (js_pow A a n) U"
proof -
  from assms(3) obtain x where x: "a = Fin x" "al \<le> x" "x \<le> au"
    unfolding enclosed_def by blast
  from assms(4) x have x0: "0 \<le> x" by simp
  have "al ^ n \<le> x ^ n" "x ^ n \<le> au ^ n"
    using assms(4) x x0 by (auto intro!: power_mono)
  with assms have p: "PL \<le> x ^ n" "x ^ n \<le> PU"
    by linarith+
  have "(0::real) < 1 / 2 ^ 20" by simp
  with assms p have p0: "0 \<le> x ^ n" "0 \<le> PL" by linarith+
  have "(1 / 2 ^ 1022 :: real) \<le> 1 / 2 ^ 20" "(2 ^ 40 :: real) \<le> 2 ^ 1023"
    by simp_all
  with assms p p0 have "normal (x ^ n)"
    unfolding normal_def by linarith
  with assms(1) obtain y where y: "pwr A x n = Fin y" "\<bar>y - x ^ n\<bar> \<le> d * \<bar>x ^ n\<bar>"
    unfolding accurate_def by blast
  with p0 have b: "x ^ n * (1 - d) \<le> y" "y \<le> x ^ n * (1 + d)"
    by (simp_all add: abs_le_iff algebra_simps)
  have "PL * (1 - d) \<le> x ^ n * (1 - d)" "x ^ n * (1 + d) \<le> PU * (1 + d)"
    using assms p by (simp_all add: mult_right_mono)
  with b assms have "L \<le> y \<and> y \<le> U"
    by linarith
  with y(1) assms(5) show ?thesis
    unfolding enclosed_def by (simp add: x js_pow_Fin)
qed

lemma step_min:
  assumes "enclosed al a au" and "enclosed bl b bu" and "au \<le> bl"
  shows "enclosed al (js_min a b) au"
  using assms unfolding enclosed_def by (auto simp: min_def)

lemma enclosed_nonzero: "enclosed l x u \<Longrightarrow> 0 < l \<Longrightarrow> x \<noteq> Fin 0"
  unfolding enclosed_def by auto

lemma real_interval: "c \<le> c \<and> c \<le> (c::real)"
  by simp

section \<open>The reference payment\<close>

text \<open>
  Bounds on the 360th power of the two ends of the interval that contains
  \<^verbatim>\<open>1 + monthlyInterestRate\<close> for the rate 6: the fifth power, its ninth power and the
  eighth power of that, each between decimal bounds.
\<close>

lemma pow_lower_6: "602257521007351303 / 100000000000000000 \<le> (200999999999797 / 200000000000000 :: real) ^ 360"
proof -
  let ?x = "200999999999797 / 200000000000000 :: real"
  have x45: "?x ^ 45 = (?x ^ 5) ^ 9" and x360: "?x ^ 360 = (?x ^ 45) ^ 8"
    by (simp_all add: power_mult [symmetric])
  have b5: "102525125312294773 / 100000000000000000 \<le> ?x ^ 5"
    by (simp add: power_divide)
  have "125162082071279979 / 100000000000000000 \<le> (102525125312294773 / 100000000000000000 :: real) ^ 9"
    by (simp add: power_divide)
  also have "\<dots> \<le> (?x ^ 5) ^ 9"
    by (rule power_mono [OF b5]) simp
  finally have b45: "125162082071279979 / 100000000000000000 \<le> ?x ^ 45"
    unfolding x45 .
  have "602257521007351303 / 100000000000000000 \<le> (125162082071279979 / 100000000000000000 :: real) ^ 8"
    by (simp add: power_divide)
  also have "\<dots> \<le> (?x ^ 45) ^ 8"
    by (rule power_mono [OF b45]) simp
  finally show ?thesis
    unfolding x360 .
qed

lemma pow_upper_6: "(125625000000127 / 125000000000000 :: real) ^ 360 \<le> 602257521445507669 / 100000000000000000"
proof -
  let ?x = "125625000000127 / 125000000000000 :: real"
  have x45: "?x ^ 45 = (?x ^ 5) ^ 9" and x360: "?x ^ 360 = (?x ^ 45) ^ 8"
    by (simp_all add: power_mult [symmetric])
  have b5: "?x ^ 5 \<le> 102525125313330737 / 100000000000000000"
    by (simp add: power_divide)
  have "(?x ^ 5) ^ 9 \<le> (102525125313330737 / 100000000000000000 :: real) ^ 9"
    by (rule power_mono [OF b5]) simp
  also have "\<dots> \<le> 12516208208266227 / 10000000000000000"
    by (simp add: power_divide)
  finally have b45: "?x ^ 45 \<le> 12516208208266227 / 10000000000000000"
    unfolding x45 .
  have "(?x ^ 45) ^ 8 \<le> (12516208208266227 / 10000000000000000 :: real) ^ 8"
    by (rule power_mono [OF b45]) simp
  also have "\<dots> \<le> 602257521445507669 / 100000000000000000"
    by (simp add: power_divide)
  finally show ?thesis
    unfolding x360 .
qed

text \<open>
  Claim C9. For \<open>principal = 200000\<close>, \<open>interestRate = 6\<close>, \<open>loanTerm = 30\<close> the monthly
  payment is a finite number within \<open>0.005\<close> of \<open>1199.10\<close>, in every arithmetic that is
  accurate to \<open>10 ^ - 12\<close>: in binary64 with any \<^verbatim>\<open>Math.pow\<close> of that accuracy, and in
  exact arithmetic. The proof follows the handler operation by operation and encloses
  the payment between \<open>1199.10104\<close> and \<open>1199.10106\<close>.
\<close>

theorem reference_payment:
  assumes acc: "accurate A (1 / 10 ^ 12)"
  shows "\<exists>v. payment_result.monthlyPayment (calculate A 200000 6 30) = Fin v \<and>
             \<bar>v - 119910 / 100\<bar> \<le> 5 / 1000"
proof -
  have d: "0 \<le> (1 / 10 ^ 12 :: real) \<and> (1 / 10 ^ 12 :: real) \<le> 1"
    by simp
  let ?r1 = "js_div A (Fin (6)) (Fin (100))"
  have r1: "enclosed (2999999999997 / 50000000000000) ?r1 (3000000000003 / 50000000000000)"
    by (rule step_div [OF acc d const_interval [of "6"] const_interval [of "100"]]) simp_all
  let ?r = "js_div A (?r1) (Fin (12))"
  have r: "enclosed (499999999999 / 100000000000000) ?r (5000000000010001 / 1000000000000000000)"
    by (rule step_div [OF acc d r1 const_interval [of "12"]]) simp_all
  let ?q = "js_add A (Fin (1)) (?r)"
  have q: "enclosed (200999999999797 / 200000000000000) ?q (125625000000127 / 125000000000000)"
    by (rule step_add [OF acc d const_interval [of "1"] r]) simp_all
  let ?w = "js_pow A (?q) 360"
  have w: "enclosed (30112876050337 / 5000000000000) ?w (60225752144611 / 10000000000000)"
    by (rule step_pow [OF acc d q _ _ pow_lower_6 pow_upper_6]) simp_all
  let ?rw = "js_mul A (?r) (?w)"
  have rw: "enclosed (15056438025123 / 500000000000000) ?rw (7528219018099 / 250000000000000)"
    by (rule step_mul [OF acc d r w]) simp_all
  let ?num = "js_mul A (Fin (200000)) (?rw)"
  have num: "enclosed (60225752100431 / 10000000000) ?num (60225752144853 / 10000000000)"
    by (rule step_mul [OF acc d const_interval [of "200000"] rw]) simp_all
  let ?den = "js_sub A (?w) (Fin (1))"
  have den: "enclosed (50225752100623 / 10000000000000) ?den (25112876072331 / 5000000000000)"
    by (rule step_sub [OF acc d w const_interval [of "1"]]) simp_all
  let ?mp = "js_div A (?num) (?den)"
  have mp: "enclosed (11991010493363 / 10000000000) ?mp (5995505256373 / 5000000000)"
    by (rule step_div [OF acc d num den]) simp_all
  from r have "?r \<noteq> Fin 0"
    by (rule enclosed_nonzero) simp
  then have "payment_result.monthlyPayment (calculate A 200000 6 30) = ?mp"
    by (simp add: calculate_def Let_def annuity_def)
  with mp show ?thesis
    unfolding enclosed_def by (auto simp: abs_le_iff)
qed

theorem reference_payment_witness:
  "accurate binary64 (1 / 10 ^ 12) \<and>
   (\<exists>v. payment_result.monthlyPayment (calculate binary64 200000 6 30) = Fin v \<and>
         \<bar>v - 119910 / 100\<bar> \<le> 5 / 1000)"
proof -
  have a: "accurate binary64 (1 / 10 ^ 12)"
    by (rule accurate_binary64) simp
  from reference_payment [OF a] a show ?thesis
    by (rule conjI [rotated])
qed

section \<open>The affordability example\<close>

text \<open>
  The same bounds for the rate 5.
\<close>

lemma pow_lower_5: "446774431229763469 / 100000000000000000 \<le> (313802083333 / 312500000000 :: real) ^ 360"
proof -
  let ?x = "313802083333 / 312500000000 :: real"
  have x45: "?x ^ 45 = (?x ^ 5) ^ 9" and x360: "?x ^ 360 = (?x ^ 45) ^ 8"
    by (simp_all add: power_mult [symmetric])
  have b5: "20420153386538961 / 20000000000000000 \<le> ?x ^ 5"
    by (simp add: power_divide)
  have "120576046194641457 / 100000000000000000 \<le> (20420153386538961 / 20000000000000000 :: real) ^ 9"
    by (simp add: power_divide)
  also have "\<dots> \<le> (?x ^ 5) ^ 9"
    by (rule power_mono [OF b5]) simp
  finally have b45: "120576046194641457 / 100000000000000000 \<le> ?x ^ 45"
    unfolding x45 .
  have "446774431229763469 / 100000000000000000 \<le> (120576046194641457 / 100000000000000000 :: real) ^ 8"
    by (simp add: power_divide)
  also have "\<dots> \<le> (?x ^ 45) ^ 8"
    by (rule power_mono [OF b45]) simp
  finally show ?thesis
    unfolding x360 .
qed

lemma pow_upper_5: "(10041666666677 / 10000000000000 :: real) ^ 360 \<le> 446774431566123899 / 100000000000000000"
proof -
  let ?x = "10041666666677 / 10000000000000 :: real"
  have x45: "?x ^ 45 = (?x ^ 5) ^ 9" and x360: "?x ^ 360 = (?x ^ 45) ^ 8"
    by (simp_all add: power_mult [symmetric])
  have b5: "?x ^ 5 \<le> 6381297933360151 / 6250000000000000"
    by (simp add: power_divide)
  have "(?x ^ 5) ^ 9 \<le> (6381297933360151 / 6250000000000000 :: real) ^ 9"
    by (rule power_mono [OF b5]) simp
  also have "\<dots> \<le> 120576046205988629 / 100000000000000000"
    by (simp add: power_divide)
  finally have b45: "?x ^ 45 \<le> 120576046205988629 / 100000000000000000"
    unfolding x45 .
  have "(?x ^ 45) ^ 8 \<le> (120576046205988629 / 100000000000000000 :: real) ^ 8"
    by (rule power_mono [OF b45]) simp
  also have "\<dots> \<le> 446774431566123899 / 100000000000000000"
    by (simp add: power_divide)
  finally show ?thesis
    unfolding x360 .
qed

text \<open>
  Claim C6. For \<open>annualIncome = 90000\<close>, \<open>monthlyDebts = 300\<close>, \<open>downPayment = 20000\<close>,
  \<open>interestRate = 5\<close>, \<open>loanTerm = 30\<close>, \<open>propertyTaxRate = 1.2\<close>, \<open>insuranceRate = 0.5\<close>
  the amount available for housing is a finite number \<open>\<ge> 0\<close> and the returned
  \<open>debtToIncomeRatio\<close> is a finite number that is at most \<open>36\<close> (it is between \<open>32.37\<close>
  and \<open>32.38\<close>), in every arithmetic that is accurate to \<open>10 ^ - 12\<close>. \<open>1.2\<close> is not a
  binary64 value, so the property tax rate is any number within that relative error
  of \<open>1.2\<close>; the binary64 value nearest \<open>1.2\<close> is \<open>5404319552844595 / 2 ^ 52\<close>.
\<close>

theorem example_debt_to_income:
  assumes acc: "accurate A (1 / 10 ^ 12)"
    and tax: "12 / 10 * (1 - 1 / 10 ^ 12) \<le> tax \<and> tax \<le> 12 / 10 * (1 + 1 / 10 ^ 12)"
  shows "(\<exists>a. availableForHousing A 90000 300 = Fin a \<and> 0 \<le> a) \<and>
         (\<exists>v. debtToIncomeRatio (affordability A 90000 300 20000 5 30 tax (1 / 2)) = Fin v \<and>
               3237 / 100 \<le> v \<and> v \<le> 3238 / 100 \<and> v \<le> 36)"
proof -
  have d: "0 \<le> (1 / 10 ^ 12 :: real) \<and> (1 / 10 ^ 12 :: real) \<le> 1"
    by simp
  from tax have taxe: "enclosed (2999999999997 / 2500000000000) (Fin tax) (3000000000003 / 2500000000000)"
    by (simp add: enclosed_def)
  let ?mi = "js_div A (Fin (90000)) (Fin (12))"
  have mi: "enclosed (2999999999997 / 400000000) ?mi (3000000000003 / 400000000)"
    by (rule step_div [OF acc d const_interval [of "90000"] const_interval [of "12"]]) simp_all
  let ?c28 = "rnd A (7 / 25)"
  have c28: "enclosed (6999999999993 / 25000000000000) ?c28 (7000000000007 / 25000000000000)"
    by (rule step_rnd [OF acc d real_interval [of "7 / 25"]]) simp_all
  let ?c36 = "rnd A (9 / 25)"
  have c36: "enclosed (8999999999991 / 25000000000000) ?c36 (9000000000009 / 25000000000000)"
    by (rule step_rnd [OF acc d real_interval [of "9 / 25"]]) simp_all
  let ?mh = "js_mul A (?mi) (?c28)"
  have mh: "enclosed (20999999999937 / 10000000000) ?mh (328125000001 / 156250000)"
    by (rule step_mul [OF acc d mi c28]) simp_all
  let ?mt = "js_mul A (?mi) (?c36)"
  have mt: "enclosed (26999999999919 / 10000000000) ?mt (13500000000041 / 5000000000)"
    by (rule step_mul [OF acc d mi c36]) simp_all
  let ?t = "js_sub A (?mt) (Fin (300))"
  have t: "enclosed (4799999999979 / 2000000000) ?t (24000000000107 / 10000000000)"
    by (rule step_sub [OF acc d mt const_interval [of "300"]]) simp_all
  let ?av = "js_min ?mh ?t"
  have av: "enclosed (20999999999937 / 10000000000) ?av (328125000001 / 156250000)"
    by (rule step_min [OF mh t]) simp
  let ?r0 = "js_div A (Fin (5)) (Fin (100))"
  have r0: "enclosed (999999999999 / 20000000000000) ?r0 (1000000000001 / 20000000000000)"
    by (rule step_div [OF acc d const_interval [of "5"] const_interval [of "100"]]) simp_all
  let ?r = "js_div A (?r0) (Fin (12))"
  have r: "enclosed (41666666666583 / 10000000000000000) ?r (41666666666751 / 10000000000000000)"
    by (rule step_div [OF acc d r0 const_interval [of "12"]]) simp_all
  let ?q = "js_add A (Fin (1)) (?r)"
  have q: "enclosed (313802083333 / 312500000000) ?q (10041666666677 / 10000000000000)"
    by (rule step_add [OF acc d const_interval [of "1"] r]) simp_all
  let ?w = "js_pow A (?q) 360"
  have w: "enclosed (44677443122931 / 10000000000000) ?w (22338721578329 / 5000000000000)"
    by (rule step_pow [OF acc d q _ _ pow_lower_5 pow_upper_5]) simp_all
  let ?rw = "js_mul A (?r) (?w)"
  have rw: "enclosed (3723120260233 / 200000000000000) ?rw (18615601315331 / 1000000000000000)"
    by (rule step_mul [OF acc d r w]) simp_all
  let ?den = "js_sub A (?w) (Fin (1))"
  have den: "enclosed (2167340195181 / 625000000000) ?den (34677443156693 / 10000000000000)"
    by (rule step_sub [OF acc d w const_interval [of "1"]]) simp_all
  let ?f = "js_div A (?rw) (?den)"
  have f: "enclosed (13420540563667 / 2500000000000000) ?f (26841081173973 / 5000000000000000)"
    by (rule step_div [OF acc d rw den]) simp_all
  let ?tx0 = "js_div A (Fin tax) (Fin (100))"
  have tx0: "enclosed (1499999999997 / 125000000000000) ?tx0 (480000000001 / 40000000000000)"
    by (rule step_div [OF acc d taxe const_interval [of "100"]]) simp_all
  let ?tx = "js_div A (?tx0) (Fin (12))"
  have tx: "enclosed (999999999997 / 1000000000000000) ?tx (10000000000031 / 10000000000000000)"
    by (rule step_div [OF acc d tx0 const_interval [of "12"]]) simp_all
  let ?in0 = "js_div A (Fin (1 / 2)) (Fin (100))"
  have in0: "enclosed (999999999999 / 200000000000000) ?in0 (1000000000001 / 200000000000000)"
    by (rule step_div [OF acc d const_interval [of "1 / 2"] const_interval [of "100"]]) simp_all
  let ?in1 = "js_div A (?in0) (Fin (12))"
  have in1: "enclosed (41666666666583 / 100000000000000000) ?in1 (41666666666751 / 100000000000000000)"
    by (rule step_div [OF acc d in0 const_interval [of "12"]]) simp_all
  let ?D1 = "js_add A (?f) (?tx)"
  have D1: "enclosed (31841081127287 / 5000000000000000) ?D1 (63682162348041 / 10000000000000000)"
    by (rule step_add [OF acc d f tx]) simp_all
  let ?D = "js_add A (?D1) (?in1)"
  have D: "enclosed (16962207230291 / 2500000000000000) ?D (265034488339 / 39062500000000)"
    by (rule step_add [OF acc d D1 in1]) simp_all
  let ?ml = "js_div A (?av) (?D)"
  have ml: "enclosed (3868895068797 / 12500000) ?ml (30951160593333 / 100000000)"
    by (rule step_div [OF acc d av D]) simp_all
  let ?hp = "js_add A (?ml) (Fin (20000))"
  have hp: "enclosed (32951160550343 / 100000000) ?hp (16475580296683 / 50000000)"
    by (rule step_add [OF acc d ml const_interval [of "20000"]]) simp_all
  let ?loan = "js_sub A (?hp) (Fin (20000))"
  have loan: "enclosed (3868895068789 / 12500000) ?loan (30951160593397 / 100000000)"
    by (rule step_sub [OF acc d hp const_interval [of "20000"]]) simp_all
  let ?lrw = "js_mul A (?loan) (?rw)"
  have lrw: "enclosed (57617446461237 / 10000000000) ?lrw (14404361646351 / 2500000000)"
    by (rule step_mul [OF acc d loan rw]) simp_all
  let ?pi = "js_div A (?lrw) (?den)"
  have pi: "enclosed (64903329009 / 39062500) ?pi (8307626139169 / 5000000000)"
    by (rule step_div [OF acc d lrw den]) simp_all
  let ?ht = "js_mul A (?hp) (Fin tax)"
  have ht: "enclosed (9885348165083 / 25000000) ?ht (39541392712119 / 100000000)"
    by (rule step_mul [OF acc d hp taxe]) simp_all
  let ?ht1 = "js_div A (?ht) (Fin (100))"
  have ht1: "enclosed (9885348165073 / 2500000000) ?ht1 (39541392712159 / 10000000000)"
    by (rule step_div [OF acc d ht const_interval [of "100"]]) simp_all
  let ?mtax = "js_div A (?ht1) (Fin (12))"
  have mtax: "enclosed (3295116055021 / 10000000000) ?mtax (32951160593499 / 100000000000)"
    by (rule step_div [OF acc d ht1 const_interval [of "12"]]) simp_all
  let ?hi = "js_mul A (?hp) (Fin (1 / 2))"
  have hi: "enclosed (3295116055031 / 20000000) ?hi (164755802967 / 1000000)"
    by (rule step_mul [OF acc d hp const_interval [of "1 / 2"]]) simp_all
  let ?hi1 = "js_div A (?hi) (Fin (100))"
  have hi1: "enclosed (8237790137569 / 5000000000) ?hi1 (16475580296717 / 10000000000)"
    by (rule step_div [OF acc d hi const_interval [of "100"]]) simp_all
  let ?mins = "js_div A (?hi1) (Fin (12))"
  have mins: "enclosed (13729650229267 / 100000000000) ?mins (6864825123639 / 50000000000)"
    by (rule step_div [OF acc d hi1 const_interval [of "12"]]) simp_all
  let ?s1 = "js_add A (?pi) (?mtax)"
  have s1: "enclosed (3982073656261 / 2000000000) ?s1 (4977592084427 / 2500000000)"
    by (rule step_add [OF acc d pi mtax]) simp_all
  let ?tot = "js_add A (?s1) (?mins)"
  have tot: "enclosed (2128333330421 / 1000000000) ?tot (10641666681229 / 5000000000)"
    by (rule step_add [OF acc d s1 mins]) simp_all
  let ?td = "js_add A (?tot) (Fin (300))"
  have td: "enclosed (4856666660837 / 2000000000) ?td (24283333362483 / 10000000000)"
    by (rule step_add [OF acc d tot const_interval [of "300"]]) simp_all
  let ?ratio = "js_div A (?td) (?mi)"
  have ratio: "enclosed (1011805554339 / 3125000000000) ?ratio (32377777816709 / 100000000000000)"
    by (rule step_div [OF acc d td mi]) simp_all
  let ?dti = "js_mul A (?ratio) (Fin (100))"
  have dti: "enclosed (6475555547763 / 200000000000) ?dti (16188888908371 / 500000000000)"
    by (rule step_mul [OF acc d ratio const_interval [of "100"]]) simp_all
  from r have r0: "?r \<noteq> Fin 0"
    by (rule enclosed_nonzero) simp
  have "availableForHousing A 90000 300 = ?av"
    by (simp add: availableForHousing_def Let_def)
  with av have "\<exists>a. availableForHousing A 90000 300 = Fin a \<and> 0 \<le> a"
    unfolding enclosed_def by auto
  moreover from r0 have "debtToIncomeRatio (affordability A 90000 300 20000 5 30 tax (1 / 2)) = ?dti"
    by (simp add: affordability_def availableForHousing_def maxLoanAmount_def annuity_def Let_def)
  with dti have "\<exists>v. debtToIncomeRatio (affordability A 90000 300 20000 5 30 tax (1 / 2)) = Fin v \<and>
      3237 / 100 \<le> v \<and> v \<le> 3238 / 100 \<and> v \<le> 36"
    unfolding enclosed_def by auto
  ultimately show ?thesis
    by (rule conjI)
qed

theorem example_debt_to_income_witness:
  "accurate binary64 (1 / 10 ^ 12) \<and>
   (\<exists>a. availableForHousing binary64 90000 300 = Fin a \<and> 0 \<le> a) \<and>
   (\<exists>v. debtToIncomeRatio
           (affordability binary64 90000 300 20000 5 30
              (5404319552844595 / 4503599627370496) (1 / 2)) = Fin v \<and>
         v \<le> 36)"
proof -
  have a: "accurate binary64 (1 / 10 ^ 12)"
    by (rule accurate_binary64) simp
  have t: "12 / 10 * (1 - 1 / 10 ^ 12) \<le> (5404319552844595 / 4503599627370496 :: real) \<and>
           (5404319552844595 / 4503599627370496 :: real) \<le> 12 / 10 * (1 + 1 / 10 ^ 12)"
    by simp
  from example_debt_to_income [OF a t] a show ?thesis
    by blast
qed

end
